theory Spec2Isabelle
  imports Main
begin

section \<open>Data model of app.go\<close>

text \<open>
  A connection handle (\<^verbatim>\<open>net.Conn\<close>) is an opaque identity; two handles are equal
  exactly when they name the same connection, which is how Go compares the keys of
  \<^verbatim>\<open>map[net.Conn]bool\<close>.
\<close>

datatype conn = Conn nat

text \<open>
  The payload \<^verbatim>\<open>Data interface{}\<close> is a dynamically typed value. The two dynamic
  types that the program asserts on are kept apart; \<open>DNil\<close> is the nil interface
  and \<open>DOther\<close> stands for a value of any other dynamic type (named by its type).
\<close>

datatype dyn = DNil | DConn conn | DStr string | DOther string

record Event =
  Type :: string
  Data :: dyn

text \<open>
  A failed type assertion \<^verbatim>\<open>x.(T)\<close> panics; nothing in the program recovers, so a
  panic unwinds every caller. It is the left summand of every result.
\<close>

datatype panic = InterfaceConversion

text \<open>\<^verbatim>\<open>type EventBus struct { handlers map[string][]EventHandler }\<close>\<close>

record 'h EventBus =
  handlers :: "string \<rightharpoonup> 'h list"

definition NewEventBus :: "'h EventBus" where
  "NewEventBus = \<lparr>handlers = Map.empty\<rparr>"

text \<open>
  \<^verbatim>\<open>eb.handlers[eventType]\<close>: indexing a Go map with an absent key yields the zero
  value, here the nil slice, and does not insert the key.
\<close>

definition handlers_at :: "'h EventBus \<Rightarrow> string \<Rightarrow> 'h list" where
  "handlers_at eb eventType = (case handlers eb eventType of None \<Rightarrow> [] | Some hs \<Rightarrow> hs)"

definition Register :: "'h EventBus \<Rightarrow> string \<Rightarrow> 'h \<Rightarrow> 'h EventBus" where
  "Register eb eventType handler =
     (let hs = handlers_at eb eventType;
          hs = hs @ [handler]
      in eb\<lparr>handlers := (handlers eb)(eventType \<mapsto> hs)\<rparr>)"

text \<open>
  The loop \<^verbatim>\<open>for _, handler := range handlers { handler(event) }\<close>. The slice is
  evaluated once, before the first iteration, so the loop runs over that snapshot
  whatever the handlers do to the bus. A handler is a function value of type
  \<^verbatim>\<open>func(Event)\<close>; in the model a handler is a name \<open>'h\<close> and \<open>call\<close> gives what
  calling it does to the program state \<open>'s\<close>.
\<close>

fun range_handlers ::
  "('h \<Rightarrow> Event \<Rightarrow> 's \<Rightarrow> panic + 's) \<Rightarrow> Event \<Rightarrow> 'h list \<Rightarrow> 's \<Rightarrow> panic + 's" where
  "range_handlers call event [] s = Inr s"
| "range_handlers call event (handler # rest) s =
     (case call handler event s of
        Inl p \<Rightarrow> Inl p
      | Inr s' \<Rightarrow> range_handlers call event rest s')"

text \<open>
  \<^verbatim>\<open>func (eb *EventBus) Dispatch(eventType string, data interface{})\<close>. The receiver
  is a pointer into the program state; \<open>bus\<close> reads the bus that it points to.
\<close>

definition Dispatch ::
  "('h \<Rightarrow> Event \<Rightarrow> 's \<Rightarrow> panic + 's) \<Rightarrow> ('s \<Rightarrow> 'h EventBus) \<Rightarrow> string \<Rightarrow> dyn \<Rightarrow> 's \<Rightarrow> panic + 's" where
  "Dispatch call bus eventType data s =
     (let event = \<lparr>Type = eventType, Data = data\<rparr>;
          hs = handlers_at (bus s) eventType
      in range_handlers call event hs s)"

lemma range_handlers_cong [fundef_cong]:
  assumes "event = event'" "hs = hs'" "s = s'"
    and "\<And>h t. h \<in> set hs' \<Longrightarrow> call h event' t = call' h event' t"
  shows "range_handlers call event hs s = range_handlers call' event' hs' s'"
  unfolding assms(1-3) using assms(4)
  by (induction hs' arbitrary: s') (auto split: sum.splits)

lemma Dispatch_cong [fundef_cong]:
  assumes "eventType = eventType'" "data = data'" "s = s'" "bus = bus'"
    and "\<And>h t. h \<in> set (handlers_at (bus' s') eventType') \<Longrightarrow>
           call h \<lparr>Type = eventType', Data = data'\<rparr> t = call' h \<lparr>Type = eventType', Data = data'\<rparr> t"
  shows "Dispatch call bus eventType data s = Dispatch call' bus' eventType' data' s'"
  unfolding Dispatch_def Let_def assms(1-4)
  by (rule range_handlers_cong) (auto simp: assms(5))

section \<open>The chat server\<close>

text \<open>
  The three handlers that \<^verbatim>\<open>ChatServer.Start\<close> registers are the method values
  \<^verbatim>\<open>cs.onNewConnection\<close>, \<^verbatim>\<open>cs.onDisconnected\<close> and \<^verbatim>\<open>cs.onMessageReceived\<close>.
\<close>

datatype EventHandler = onNewConnection | onDisconnected | onMessageReceived

text \<open>
  \<^verbatim>\<open>type ChatServer struct { eventBus *EventBus; clients map[net.Conn]bool }\<close>
\<close>

record ChatServer =
  eventBus :: "EventHandler EventBus"
  clients :: "conn \<rightharpoonup> bool"

definition NewChatServer :: ChatServer where
  "NewChatServer = \<lparr>eventBus = NewEventBus, clients = Map.empty\<rparr>"

text \<open>
  What one \<^verbatim>\<open>conn.Read\<close> meets on a connection: bytes that the peer has sent, or an
  error (end of stream included, which Go reports as the error \<^verbatim>\<open>io.EOF\<close>).
\<close>

datatype arrival = Bytes string | ReadError string

text \<open>
  The program state: the server, the lines printed to standard output, the writes
  delivered to the peer of each connection (one entry for each successful
  \<^verbatim>\<open>Write\<close>), what is still unread on each connection, and what the coming calls of
  \<^verbatim>\<open>listener.Accept\<close> will meet (an error, or a new connection).
\<close>

record world =
  server :: ChatServer
  stdout :: "string list"
  outbox :: "conn \<Rightarrow> string list"
  inbox :: "conn \<Rightarrow> arrival list"
  backlog :: "(string + conn) list"

text \<open>
  What the program does not decide: whether \<^verbatim>\<open>net.Listen\<close> fails on an address (and
  with which error), the remote address of a connection, whether a write on a
  connection returns an error, and the order in which \<^verbatim>\<open>range\<close> visits the keys of a
  map (Go leaves it unspecified; here it is any function of the map, and what is
  proved of a broadcast says what it needs of the order).
\<close>

record env =
  net_Listen :: "string \<Rightarrow> string option"
  RemoteAddr :: "conn \<Rightarrow> string"
  write_fails :: "conn \<Rightarrow> bool"
  range_order :: "(conn \<rightharpoonup> bool) \<Rightarrow> conn list"

definition Printf :: "string \<Rightarrow> world \<Rightarrow> world" where
  "Printf line w = w\<lparr>stdout := stdout w @ [line]\<rparr>"

text \<open>
  \<^verbatim>\<open>conn.Write(b)\<close>: on success the peer receives exactly \<open>b\<close>; on failure the
  call returns an error and the peer receives nothing. The result is the error flag
  and the new state.
\<close>

definition conn_Write :: "env \<Rightarrow> conn \<Rightarrow> string \<Rightarrow> world \<Rightarrow> bool \<times> world" where
  "conn_Write e c b w =
     (if write_fails e c then (True, w)
      else (False, w\<lparr>outbox := (outbox w)(c := outbox w c @ [b])\<rparr>))"

definition set_client :: "conn \<Rightarrow> world \<Rightarrow> world" where
  "set_client c w = w\<lparr>server := (server w)\<lparr>clients := (clients (server w))(c \<mapsto> True)\<rparr>\<rparr>"

definition delete_client :: "conn \<Rightarrow> world \<Rightarrow> world" where
  "delete_client c w = w\<lparr>server := (server w)\<lparr>clients := (clients (server w))(c := None)\<rparr>\<rparr>"

definition bus_of :: "world \<Rightarrow> EventHandler EventBus" where
  "bus_of w = eventBus (server w)"

text \<open>
  Calling a handler. \<open>broadcast\<close> is the loop \<^verbatim>\<open>for conn := range cs.clients\<close> of
  \<^verbatim>\<open>onMessageReceived\<close> over the keys still to visit; a key that was deleted before
  the loop reached it is not produced, as the Go specification says.
\<close>

function call_handler :: "env \<Rightarrow> EventHandler \<Rightarrow> Event \<Rightarrow> world \<Rightarrow> panic + world"
  and broadcast :: "env \<Rightarrow> string \<Rightarrow> conn list \<Rightarrow> world \<Rightarrow> panic + world" where
  "call_handler e onNewConnection event w =
     (case Data event of
        DConn c \<Rightarrow>
          Inr (Printf (''New connection from '' @ RemoteAddr e c @ ''\<newline>'') (set_client c w))
      | _ \<Rightarrow> Inl InterfaceConversion)"
| "call_handler e onDisconnected event w =
     (case Data event of
        DConn c \<Rightarrow>
          Inr (Printf (''Disconnected from '' @ RemoteAddr e c @ ''\<newline>'') (delete_client c w))
      | _ \<Rightarrow> Inl InterfaceConversion)"
| "call_handler e onMessageReceived event w =
     (case Data event of
        DStr msg \<Rightarrow> broadcast e msg (range_order e (clients (server w))) w
      | _ \<Rightarrow> Inl InterfaceConversion)"
| "broadcast e msg [] w = Inr w"
| "broadcast e msg (c # rest) w =
     (if clients (server w) c = None then broadcast e msg rest w
      else
        (case conn_Write e c msg w of
           (True, w') \<Rightarrow>
             (case Dispatch (call_handler e) bus_of ''disconnected'' (DConn c) w' of
                Inl p \<Rightarrow> Inl p
              | Inr w'' \<Rightarrow> broadcast e msg rest w'')
         | (False, w') \<Rightarrow> broadcast e msg rest w'))"
  by pat_completeness auto
termination
  by (relation "measure (\<lambda>x. case x of
        Inl (e, h, event, w) \<Rightarrow>
          (case Data event of
             DStr m \<Rightarrow> Suc (Suc (length (range_order e (clients (server w)))))
           | _ \<Rightarrow> 0)
      | Inr (e, msg, ks, w) \<Rightarrow> Suc (length ks))") simp_all

text \<open>
  How a call that may not return ends, as far as the inputs of the state reach: by a
  panic, blocked for ever in \<^verbatim>\<open>Accept\<close> or \<^verbatim>\<open>Read\<close> with nothing left to come, or
  returned with a value.
\<close>

datatype 'a run = Panicked panic | Blocked world | Returned 'a world

text \<open>
  \<^verbatim>\<open>cs.eventBus.Register(...)\<close>: the server's bus is updated in place.
\<close>

definition server_Register :: "string \<Rightarrow> EventHandler \<Rightarrow> world \<Rightarrow> world" where
  "server_Register eventType handler w =
     w\<lparr>server := (server w)\<lparr>eventBus := Register (eventBus (server w)) eventType handler\<rparr>\<rparr>"

text \<open>
  The parts of the state that no handler writes: the handler table, the unread input
  and the pending accepts. The two loops below consume the latter two, and their
  termination rests on the handlers leaving them alone.
\<close>

definition untouched ::
  "world \<Rightarrow> (string \<rightharpoonup> EventHandler list) \<times> (conn \<Rightarrow> arrival list) \<times> (string + conn) list" where
  "untouched w = (handlers (bus_of w), inbox w, backlog w)"

lemma untouched_simps [simp]:
  "untouched (Printf l w) = untouched w"
  "untouched (set_client c w) = untouched w"
  "untouched (delete_client c w) = untouched w"
  "untouched (snd (conn_Write e c b w)) = untouched w"
  by (simp_all add: untouched_def Printf_def set_client_def delete_client_def
      conn_Write_def bus_of_def)

lemma range_handlers_frame:
  assumes "\<And>h t t'. h \<in> set hs \<Longrightarrow> call h event t = Inr t' \<Longrightarrow> f t' = f t"
    and "range_handlers call event hs s = Inr s'"
  shows "f s' = f s"
  using assms
  by (induction hs arbitrary: s) (auto split: sum.splits, metis)

lemma Dispatch_frame:
  assumes "\<And>h t t'. h \<in> set (handlers_at (bus s) eventType) \<Longrightarrow>
             call h \<lparr>Type = eventType, Data = data\<rparr> t = Inr t' \<Longrightarrow> f t' = f t"
    and "Dispatch call bus eventType data s = Inr s'"
  shows "f s' = f s"
  using assms(2) unfolding Dispatch_def Let_def
  by (rule range_handlers_frame[rotated]) (use assms(1) in blast)

lemma call_handler_untouched:
  "call_handler e h event w = Inr w' \<Longrightarrow> untouched w' = untouched w"
  and broadcast_untouched:
  "broadcast e msg ks w = Inr w' \<Longrightarrow> untouched w' = untouched w"
proof (induction e h event w and e msg ks w arbitrary: w' and w'
    rule: call_handler_broadcast.induct)
  case (1 e event w)
  then show ?case by (auto split: dyn.splits)
next
  case (2 e event w)
  then show ?case by (auto split: dyn.splits)
next
  case (3 e event w)
  then show ?case by (auto split: dyn.splits)
next
  case (4 e msg w)
  then show ?case by simp
next
  case (5 e msg c rest w)
  show ?case
  proof (cases "clients (server w) c = None")
    case True
    with 5 show ?thesis by simp
  next
    case False
    obtain x y where xy: "conn_Write e c msg w = (x, y)"
      by (cases "conn_Write e c msg w")
    have y: "untouched y = untouched w"
      using untouched_simps(4)[of e c msg w] xy by simp
    show ?thesis
    proof (cases x)
      case failed: True
      then have xT: "x = True" by simp
      from "5.prems" False xy failed obtain b where
        d: "Dispatch (call_handler e) bus_of ''disconnected'' (DConn c) y = Inr b"
        and b: "broadcast e msg rest b = Inr w'"
        by (auto split: sum.splits)
      have "untouched b = untouched y"
        using d
      proof (rule Dispatch_frame[rotated])
        fix h t t'
        assume "h \<in> set (handlers_at (bus_of y) ''disconnected'')"
          and "call_handler e h \<lparr>Type = ''disconnected'', Data = DConn c\<rparr> t = Inr t'"
        then show "untouched t' = untouched t"
          using "5.IH"(2)[OF False xy[symmetric] xT] by blast
      qed
      moreover have "untouched w' = untouched b"
        using "5.IH"(3)[OF False xy[symmetric] xT d b] .
      ultimately show ?thesis using y by simp
    next
      case written: False
      then have xF: "x = False" by simp
      from written "5.prems" False xy have "broadcast e msg rest y = Inr w'" by simp
      then show ?thesis using "5.IH"(4)[OF False xy[symmetric] xF] y by simp
    qed
  qed
qed

lemma EventBus_eqI: "handlers a = handlers b \<Longrightarrow> a = (b :: 'h EventBus)"
  by simp

lemma untouched_eq:
  "untouched w' = untouched w \<longleftrightarrow>
     bus_of w' = bus_of w \<and> inbox w' = inbox w \<and> backlog w' = backlog w"
  by (auto simp: untouched_def intro: EventBus_eqI)

lemma Dispatch_untouched:
  "Dispatch (call_handler e) bus_of t d w = Inr w' \<Longrightarrow> untouched w' = untouched w"
  by (erule Dispatch_frame[rotated]) (rule call_handler_untouched)

text \<open>
  The loop \<^verbatim>\<open>for { conn, err := listener.Accept(); ... }\<close> of \<^verbatim>\<open>ChatServer.Start\<close>.
  It has no exit: it ends only by a panic of a handler, and otherwise stays in
  \<^verbatim>\<open>Accept\<close>.
\<close>

function accept_loop :: "env \<Rightarrow> world \<Rightarrow> string option run" where
  "accept_loop e w =
     (case backlog w of
        [] \<Rightarrow> Blocked w
      | Inl err # rest \<Rightarrow>
          accept_loop e (Printf (''Error accepting connection: '' @ err @ ''\<newline>'')
                           (w\<lparr>backlog := rest\<rparr>))
      | Inr c # rest \<Rightarrow>
          (case Dispatch (call_handler e) bus_of ''new-connection'' (DConn c)
                  (w\<lparr>backlog := rest\<rparr>) of
             Inl p \<Rightarrow> Panicked p
           | Inr w' \<Rightarrow> accept_loop e w'))"
  by pat_completeness auto
termination
proof (relation "measure (\<lambda>(e, w). length (backlog w))", goal_cases)
  case 1
  then show ?case by simp
next
  case (2 e w a rest err)
  then show ?case by (simp add: Printf_def)
next
  case (3 e w a rest c w')
  then show ?case
    using Dispatch_untouched[OF 3(3)] by (simp add: untouched_def)
qed

declare accept_loop.simps [simp del]

text \<open>
  \<^verbatim>\<open>func (cs *ChatServer) Start(port string) error\<close>. When \<^verbatim>\<open>net.Listen\<close> fails the
  error is returned at once. Otherwise the three handlers are registered and the
  accept loop is entered. (The deferred \<^verbatim>\<open>listener.Close()\<close> acts on the listener
  only, which the state does not hold.)
\<close>

definition ChatServer_Start :: "env \<Rightarrow> string \<Rightarrow> world \<Rightarrow> string option run" where
  "ChatServer_Start e port w =
     (case net_Listen e port of
        Some err \<Rightarrow> Returned (Some err) w
      | None \<Rightarrow>
          (let w = Printf (''Listening on port '' @ port @ ''...\<newline>'') w;
               w = server_Register ''new-connection'' onNewConnection w;
               w = server_Register ''disconnected'' onDisconnected w;
               w = server_Register ''message-received'' onMessageReceived w
           in accept_loop e w))"

text \<open>
  \<^verbatim>\<open>func main()\<close>: a fresh server is started on \<^verbatim>\<open>:8000\<close>; when \<^verbatim>\<open>Start\<close> returns an
  error it is printed, and \<^verbatim>\<open>main\<close> returns, which ends the process.
\<close>

definition main :: "env \<Rightarrow> world \<Rightarrow> unit run" where
  "main e w =
     (let w = w\<lparr>server := NewChatServer\<rparr> in
      case ChatServer_Start e '':8000'' w of
        Panicked p \<Rightarrow> Panicked p
      | Blocked w' \<Rightarrow> Blocked w'
      | Returned err w' \<Rightarrow>
          (case err of
             Some msg \<Rightarrow> Returned () (Printf (''Error starting server: '' @ msg @ ''\<newline>'') w')
           | None \<Rightarrow> Returned () w'))"

section \<open>The reader loop of a client\<close>

text \<open>
  \<^verbatim>\<open>n, err := c.conn.Read(buf)\<close>. With nothing left to come the call blocks. An
  error is returned with \<open>n = 0\<close>. Otherwise as many of the bytes at the head of
  the input as fit into \<open>buf\<close> are copied to its front; the bytes that did not fit
  stay at the head of the input for the next call.
\<close>

datatype reading = Blocks | Fails string world | Reads nat string world

definition conn_Read :: "conn \<Rightarrow> string \<Rightarrow> world \<Rightarrow> reading" where
  "conn_Read c buf w =
     (case inbox w c of
        [] \<Rightarrow> Blocks
      | ReadError err # rest \<Rightarrow> Fails err (w\<lparr>inbox := (inbox w)(c := rest)\<rparr>)
      | Bytes d # rest \<Rightarrow>
          (let n = min (length d) (length buf);
               buf' = take n d @ drop n buf;
               left = drop n d
           in Reads n buf'
                (w\<lparr>inbox := (inbox w)(c := (if left = [] then rest else Bytes left # rest))\<rparr>)))"

text \<open>
  The loop of \<^verbatim>\<open>Client.Start\<close>, for the connection \<open>c\<close> and the buffer \<open>buf\<close>;
  \<^verbatim>\<open>string(buf[:n])\<close> is the first \<open>n\<close> bytes of the buffer. With an empty buffer and
  bytes to come \<^verbatim>\<open>Read\<close> returns \<open>n = 0\<close> for ever and the loop spins, so the loop is
  a partial function: \<open>None\<close> is "does not come to a rest".
\<close>

partial_function (option) reader_loop :: "env \<Rightarrow> conn \<Rightarrow> string \<Rightarrow> world \<Rightarrow> unit run option" where
  "reader_loop e c buf w =
     (case conn_Read c buf w of
        Blocks \<Rightarrow> Some (Blocked w)
      | Fails err w' \<Rightarrow>
          (case Dispatch (call_handler e) bus_of ''disconnected'' (DConn c) w' of
             Inl p \<Rightarrow> Some (Panicked p)
           | Inr w'' \<Rightarrow> Some (Returned () w''))
      | Reads n buf' w' \<Rightarrow>
          (let msg = take n buf' in
           case Dispatch (call_handler e) bus_of ''message-received'' (DStr msg) w' of
             Inl p \<Rightarrow> Some (Panicked p)
           | Inr w'' \<Rightarrow> reader_loop e c buf' w''))"

text \<open>
  \<^verbatim>\<open>type Client struct { conn net.Conn; eventBus *EventBus }\<close>. The pointer can
  only hold the bus of the server (\<^verbatim>\<open>NewEventBus\<close> is called by \<^verbatim>\<open>NewChatServer\<close>
  alone), so the record keeps the connection and \<^verbatim>\<open>c.eventBus\<close> is read as the bus
  of the server.
\<close>

record Client =
  conn :: conn

definition NewClient :: "conn \<Rightarrow> Client" where
  "NewClient c = \<lparr>conn = c\<rparr>"

text \<open>
  \<^verbatim>\<open>func (c *Client) Start()\<close>: the buffer \<^verbatim>\<open>make([]byte, 1024)\<close> holds 1024 zero
  bytes.
\<close>

definition Client_Start :: "env \<Rightarrow> Client \<Rightarrow> world \<Rightarrow> unit run option" where
  "Client_Start e cl w =
     (case Dispatch (call_handler e) bus_of ''new-connection'' (DConn (conn cl)) w of
        Inl p \<Rightarrow> Some (Panicked p)
      | Inr w' \<Rightarrow> reader_loop e (conn cl) (replicate 1024 (CHR 0x00)) w')"

section \<open>Registrations in sequence, and sample inputs\<close>

text \<open>
  A bus after a sequence of calls \<^verbatim>\<open>eb.Register(t, h)\<close>, in the order of the list.
\<close>

definition register_all :: "'h EventBus \<Rightarrow> (string \<times> 'h) list \<Rightarrow> 'h EventBus" where
  "register_all eb regs = foldl (\<lambda>eb r. Register eb (fst r) (snd r)) eb regs"

text \<open>
  The bus that \<^verbatim>\<open>ChatServer.Start\<close> has built when it enters its accept loop, from the
  empty bus of \<^verbatim>\<open>NewChatServer\<close>.
\<close>

definition started_bus :: "EventHandler EventBus" where
  "started_bus =
     Register (Register (Register NewEventBus
       ''new-connection'' onNewConnection)
       ''disconnected'' onDisconnected)
       ''message-received'' onMessageReceived"

text \<open>
  A sample for the bus alone: handlers are numbers, the state is the bus with a list,
  and calling handler \<open>h\<close> appends \<open>h\<close> to the list.
\<close>

definition note_call ::
  "nat \<Rightarrow> Event \<Rightarrow> nat EventBus \<times> nat list \<Rightarrow> panic + nat EventBus \<times> nat list" where
  "note_call h event s = Inr (fst s, snd s @ [h])"

definition ticking_bus :: "nat EventBus" where
  "ticking_bus =
     register_all NewEventBus [(''tick'', 1), (''tock'', 9), (''tick'', 2), (''tick'', 1)]"

text \<open>
  Samples for the server: an environment where only the writes on connection 2 fail,
  a running server with three connections in its registry, and a running server with
  none.
\<close>

definition sample_env :: env where
  "sample_env =
     \<lparr>net_Listen = (\<lambda>port. None),
      RemoteAddr = (\<lambda>c. ''10.0.0.7:5000''),
      write_fails = (\<lambda>c. c = Conn 2),
      range_order = (\<lambda>m. filter (\<lambda>c. m c \<noteq> None) [Conn 3, Conn 1, Conn 2])\<rparr>"

definition sample_world :: world where
  "sample_world =
     \<lparr>server = \<lparr>eventBus = started_bus,
                 clients = [Conn 1 \<mapsto> True, Conn 2 \<mapsto> True, Conn 3 \<mapsto> True]\<rparr>,
      stdout = [], outbox = (\<lambda>c. []), inbox = (\<lambda>c. []), backlog = []\<rparr>"

definition idle_world :: world where
  "idle_world =
     \<lparr>server = \<lparr>eventBus = started_bus, clients = Map.empty\<rparr>,
      stdout = [], outbox = (\<lambda>c. []), inbox = (\<lambda>c. []), backlog = []\<rparr>"

text \<open>
  The line that \<^verbatim>\<open>onDisconnected\<close> prints for a connection.
\<close>

definition notice :: "env \<Rightarrow> conn \<Rightarrow> string" where
  "notice e c = ''Disconnected from '' @ RemoteAddr e c @ ''\<newline>''"

text \<open>
  More samples: a world before \<^verbatim>\<open>main\<close>, where one accept fails, then connection 4
  is accepted and has sent \<^verbatim>\<open>hello\<close>; an environment where \<^verbatim>\<open>net.Listen\<close> fails;
  and a running server where connection 3 has sent \<^verbatim>\<open>hi\<close> and closed.
\<close>

definition knocking_world :: world where
  "knocking_world =
     \<lparr>server = NewChatServer, stdout = [], outbox = (\<lambda>c. []),
      inbox = (\<lambda>c. if c = Conn 4 then [Bytes ''hello''] else []),
      backlog = [Inl ''timeout'', Inr (Conn 4)]\<rparr>"

definition refusing_env :: env where
  "refusing_env = sample_env\<lparr>net_Listen := (\<lambda>port. Some ''address already in use'')\<rparr>"

definition chatting_world :: world where
  "chatting_world =
     \<lparr>server = \<lparr>eventBus = started_bus, clients = Map.empty\<rparr>,
      stdout = [], outbox = (\<lambda>c. []),
      inbox = (\<lambda>c. if c = Conn 3 then [Bytes ''hi'', ReadError ''EOF''] else []),
      backlog = []\<rparr>"

section \<open>The events of a reader loop\<close>

text \<open>
  The size of what is to come on a connection: the loop of \<^verbatim>\<open>Client.Start\<close> makes
  it smaller with every read.
\<close>

fun pending :: "arrival \<Rightarrow> nat" where
  "pending (Bytes d) = Suc (length d)"
| "pending (ReadError err) = 1"

text \<open>
  The reader loop in the words of the spec (section 4.3), to be compared with the
  loop of the source above: the events that are dispatched for what arrives on a
  connection. Every successful read takes the bytes that have arrived, at most 1024
  of them, and dispatches one \<^verbatim>\<open>message-received\<close> with exactly these bytes (what
  did not fit is left for the next read); a read error dispatches \<^verbatim>\<open>disconnected\<close>
  for the connection and ends the loop.
\<close>

function spec_reader_events :: "conn \<Rightarrow> arrival list \<Rightarrow> (string \<times> dyn) list" where
  "spec_reader_events c [] = []"
| "spec_reader_events c (ReadError err # rest) = [(''disconnected'', DConn c)]"
| "spec_reader_events c (Bytes d # rest) =
     (''message-received'', DStr (take 1024 d)) #
       spec_reader_events c (if drop 1024 d = [] then rest else Bytes (drop 1024 d) # rest)"
  by pat_completeness auto
termination
  by (relation "measure (\<lambda>(c, xs). sum_list (map pending xs))") auto

text \<open>Dispatching a list of events on the bus of the server, one after the other.\<close>

fun dispatch_all :: "env \<Rightarrow> (string \<times> dyn) list \<Rightarrow> world \<Rightarrow> panic + world" where
  "dispatch_all e [] w = Inr w"
| "dispatch_all e (ev # evs) w =
     (case Dispatch (call_handler e) bus_of (fst ev) (snd ev) w of
        Inl p \<Rightarrow> Inl p
      | Inr w' \<Rightarrow> dispatch_all e evs w')"

text \<open>
  What the loop leaves unread (the arrivals after the first read error), and whether
  a read error is to come at all.
\<close>

fun unread :: "arrival list \<Rightarrow> arrival list" where
  "unread [] = []"
| "unread (ReadError err # rest) = rest"
| "unread (Bytes d # rest) = unread rest"

fun read_fails :: "arrival list \<Rightarrow> bool" where
  "read_fails [] = False"
| "read_fails (ReadError err # rest) = True"
| "read_fails (Bytes d # rest) = read_fails rest"

text \<open>
  How the loop is expected to end on a state: with the events of the connection's
  input dispatched in order, returned when a read error was met, and otherwise
  blocked in \<^verbatim>\<open>Read\<close>.
\<close>

definition reader_result :: "env \<Rightarrow> conn \<Rightarrow> world \<Rightarrow> unit run" where
  "reader_result e c w =
     (case dispatch_all e (spec_reader_events c (inbox w c))
             (w\<lparr>inbox := (inbox w)(c := unread (inbox w c))\<rparr>) of
        Inl p \<Rightarrow> Panicked p
      | Inr w' \<Rightarrow> if read_fails (inbox w c) then Returned () w' else Blocked w')"

section \<open>The event bus\<close>

lemma handlers_at_Register:
  "handlers_at (Register eb t h) t' =
     (if t' = t then handlers_at eb t @ [h] else handlers_at eb t')"
  by (simp add: Register_def handlers_at_def)

lemma handlers_Register_other:
  "t' \<noteq> t \<Longrightarrow> handlers (Register eb t h) t' = handlers eb t'"
  by (simp add: Register_def)

lemma handlers_at_NewEventBus [simp]: "handlers_at NewEventBus t = []"
  by (simp add: NewEventBus_def handlers_at_def)

lemma handlers_at_register_all:
  "handlers_at (register_all eb regs) t =
     handlers_at eb t @ map snd (filter (\<lambda>r. fst r = t) regs)"
  unfolding register_all_def
  by (induction regs arbitrary: eb) (simp_all add: handlers_at_Register)

text \<open>
  The loop over the handlers returns with \<open>s'\<close> exactly when there is a chain of
  states from \<open>s\<close> to \<open>s'\<close>, one step for each handler of the list in its order:
  handler \<open>i\<close> is called once, on the state that handler \<open>i - 1\<close> left, and returns.
\<close>

lemma range_handlers_chain:
  "range_handlers call ev hs s = Inr s' \<longleftrightarrow>
     (\<exists>ss. length ss = Suc (length hs) \<and> ss ! 0 = s \<and> ss ! length hs = s' \<and>
        (\<forall>i<length hs. call (hs ! i) ev (ss ! i) = Inr (ss ! Suc i)))"
proof (induction hs arbitrary: s)
  case Nil
  show ?case
  proof
    assume "range_handlers call ev [] s = Inr s'"
    then have "s' = s" by simp
    then show "\<exists>ss. length ss = Suc (length []) \<and> ss ! 0 = s \<and> ss ! length [] = s' \<and>
        (\<forall>i<length []. call ([] ! i) ev (ss ! i) = Inr (ss ! Suc i))"
      by (intro exI[of _ "[s]"]) simp
  next
    assume "\<exists>ss. length ss = Suc (length []) \<and> ss ! 0 = s \<and> ss ! length [] = s' \<and>
        (\<forall>i<length []. call ([] ! i) ev (ss ! i) = Inr (ss ! Suc i))"
    then show "range_handlers call ev [] s = Inr s'" by auto
  qed
next
  case (Cons h hs)
  let ?chain = "\<lambda>hs s ss. length ss = Suc (length hs) \<and> ss ! 0 = s \<and> ss ! length hs = s' \<and>
        (\<forall>i<length hs. call (hs ! i) ev (ss ! i) = Inr (ss ! Suc i))"
  show ?case
  proof
    assume run: "range_handlers call ev (h # hs) s = Inr s'"
    then obtain s1 where s1: "call h ev s = Inr s1"
      and rest: "range_handlers call ev hs s1 = Inr s'"
      by (auto split: sum.splits)
    from rest Cons.IH[of s1] obtain ss where ss: "?chain hs s1 ss" by blast
    have "?chain (h # hs) s (s # ss)"
      using ss s1 by (auto simp: nth_Cons split: nat.splits)
    then show "\<exists>ss. ?chain (h # hs) s ss" by blast
  next
    assume "\<exists>ss. ?chain (h # hs) s ss"
    then obtain ss where ss: "?chain (h # hs) s ss" by blast
    then obtain t where t: "ss = s # t" by (cases ss) auto
    from ss have first: "call h ev s = Inr (t ! 0)" by (auto simp: t)
    have "?chain hs (t ! 0) t"
      using ss unfolding t by (auto simp: nth_Cons split: nat.splits)
    then have "range_handlers call ev hs (t ! 0) = Inr s'"
      using Cons.IH[of "t ! 0"] by blast
    with first show "range_handlers call ev (h # hs) s = Inr s'" by simp
  qed
qed

lemma range_handlers_returns:
  "(\<And>h x. h \<in> set hs \<Longrightarrow> \<exists>x'. call h ev x = Inr x') \<Longrightarrow> \<exists>s'. range_handlers call ev hs s = Inr s'"
proof (induction hs arbitrary: s)
  case Nil
  then show ?case by simp
next
  case (Cons h hs)
  from Cons.prems[of h s] obtain s1 where "call h ev s = Inr s1" by auto
  moreover from Cons.IH[of s1] Cons.prems obtain s' where "range_handlers call ev hs s1 = Inr s'"
    by auto
  ultimately show ?case by simp
qed

text \<open>
  Claim C1. Let the bus be what a sequence \<open>regs\<close> of calls of \<^verbatim>\<open>Register\<close> has built
  from the empty bus, and let \<open>h\<^sub>0, ..., h\<^sub>k\<^sub>-\<^sub>1\<close> be the handlers that the sequence
  registers for the type \<open>t\<close>, in the order of registration. One \<^verbatim>\<open>Dispatch\<close> of \<open>t\<close>
  returns, with state \<open>s'\<close>, exactly when there are states \<open>ss\<^sub>0 = s, ..., ss\<^sub>k = s'\<close>
  such that handler \<open>h\<^sub>i\<close>, called with the event of type \<open>t\<close> that wraps the payload
  on the state \<open>ss\<^sub>i\<close>, returns with \<open>ss\<^sub>i\<^sub>+\<^sub>1\<close>: each of the \<open>k\<close> handlers is called exactly
  once, in the order of registration, each on the state that the one before it left
  (the calls are made by \<^verbatim>\<open>Dispatch\<close> itself, one after the other), and \<^verbatim>\<open>Dispatch\<close>
  returns only when the last of them has returned. When no handler panics,
  \<^verbatim>\<open>Dispatch\<close> does return.
\<close>

theorem Dispatch_calls_registered_handlers_once_in_order:
  assumes "bus s = register_all NewEventBus regs"
  shows "(Dispatch call bus t d s = Inr s' \<longleftrightarrow>
     (\<exists>ss. length ss = Suc (length (filter (\<lambda>r. fst r = t) regs)) \<and>
        ss ! 0 = s \<and> ss ! length (filter (\<lambda>r. fst r = t) regs) = s' \<and>
        (\<forall>i<length (filter (\<lambda>r. fst r = t) regs).
           call (snd (filter (\<lambda>r. fst r = t) regs ! i)) \<lparr>Type = t, Data = d\<rparr> (ss ! i)
             = Inr (ss ! Suc i)))) \<and>
     ((\<forall>h ev x. \<exists>x'. call h ev x = Inr x') \<longrightarrow> (\<exists>s''. Dispatch call bus t d s = Inr s''))"
proof
  show "Dispatch call bus t d s = Inr s' \<longleftrightarrow>
     (\<exists>ss. length ss = Suc (length (filter (\<lambda>r. fst r = t) regs)) \<and>
        ss ! 0 = s \<and> ss ! length (filter (\<lambda>r. fst r = t) regs) = s' \<and>
        (\<forall>i<length (filter (\<lambda>r. fst r = t) regs).
           call (snd (filter (\<lambda>r. fst r = t) regs ! i)) \<lparr>Type = t, Data = d\<rparr> (ss ! i)
             = Inr (ss ! Suc i)))"
    unfolding Dispatch_def Let_def assms handlers_at_register_all range_handlers_chain
    by simp
  show "(\<forall>h ev x. \<exists>x'. call h ev x = Inr x') \<longrightarrow> (\<exists>s''. Dispatch call bus t d s = Inr s'')"
    unfolding Dispatch_def Let_def by (auto intro: range_handlers_returns)
qed

theorem Dispatch_calls_registered_handlers_once_in_order_witness:
  "Dispatch note_call fst ''tick'' DNil (ticking_bus, []) = Inr (ticking_bus, [1, 2, 1])"
proof -
  let ?regs = "[(''tick'', 1), (''tock'', 9), (''tick'', 2), (''tick'', 1::nat)]"
  let ?ss = "[(ticking_bus, []), (ticking_bus, [1]), (ticking_bus, [1, 2]),
              (ticking_bus, [1, 2, 1::nat])]"
  have b: "fst (ticking_bus, []::nat list) = register_all NewEventBus ?regs"
    by (simp add: ticking_bus_def)
  have "length ?ss = Suc (length (filter (\<lambda>r. fst r = ''tick'') ?regs)) \<and>
        ?ss ! 0 = (ticking_bus, []) \<and>
        ?ss ! length (filter (\<lambda>r. fst r = ''tick'') ?regs) = (ticking_bus, [1, 2, 1]) \<and>
        (\<forall>i<length (filter (\<lambda>r. fst r = ''tick'') ?regs).
           note_call (snd (filter (\<lambda>r. fst r = ''tick'') ?regs ! i))
             \<lparr>Type = ''tick'', Data = DNil\<rparr> (?ss ! i) = Inr (?ss ! Suc i))"
    by (simp add: note_call_def less_Suc_eq numeral_3_eq_3 all_conj_distrib)
  then show ?thesis
    using Dispatch_calls_registered_handlers_once_in_order
      [where bus = fst and s = "(ticking_bus, [])" and regs = ?regs and call = note_call
        and t = "''tick''" and d = DNil and s' = "(ticking_bus, [1, 2, 1])", OF b]
    by blast
qed

text \<open>
  Claim C7. When no handler is registered for a type (the type has no entry in the
  table, or an empty one), \<^verbatim>\<open>Dispatch\<close> of that type returns with the state as it
  was, whatever the payload and whatever the handlers of the other types would do:
  no handler is called, and neither the handler table nor any other part of the
  state changes.
\<close>

theorem Dispatch_without_handlers_is_noop:
  "handlers_at (bus s) t = [] \<Longrightarrow> Dispatch call bus t d s = Inr s"
  by (simp add: Dispatch_def)

theorem Dispatch_without_handlers_is_noop_witness:
  "handlers_at (fst (ticking_bus, [5::nat])) ''new-connection'' = [] \<and>
   Dispatch note_call fst ''new-connection'' (DStr ''hello'') (ticking_bus, [5])
     = Inr (ticking_bus, [5])"
proof -
  have h: "handlers_at (fst (ticking_bus, [5::nat])) ''new-connection'' = []"
    by (simp add: ticking_bus_def handlers_at_register_all)
  show ?thesis
    using h Dispatch_without_handlers_is_noop
      [of fst "(ticking_bus, [5::nat])" "''new-connection''" note_call "DStr ''hello''"]
    by simp
qed

section \<open>The handlers of the chat server\<close>


lemma handlers_at_started_bus:
  "handlers_at started_bus t =
     (if t = ''new-connection'' then [onNewConnection]
      else if t = ''disconnected'' then [onDisconnected]
      else if t = ''message-received'' then [onMessageReceived] else [])"
  by (simp add: started_bus_def handlers_at_Register)

lemma Dispatch_started:
  assumes "bus_of w = started_bus"
  shows "Dispatch (call_handler e) bus_of ''new-connection'' d w
           = call_handler e onNewConnection \<lparr>Type = ''new-connection'', Data = d\<rparr> w"
    and "Dispatch (call_handler e) bus_of ''disconnected'' d w
           = call_handler e onDisconnected \<lparr>Type = ''disconnected'', Data = d\<rparr> w"
    and "Dispatch (call_handler e) bus_of ''message-received'' d w
           = call_handler e onMessageReceived \<lparr>Type = ''message-received'', Data = d\<rparr> w"
  by (simp_all add: Dispatch_def assms handlers_at_started_bus split: sum.splits)

lemma bus_of_simps [simp]:
  "bus_of (Printf l w) = bus_of w"
  "bus_of (set_client c w) = bus_of w"
  "bus_of (delete_client c w) = bus_of w"
  "bus_of (w\<lparr>outbox := ob\<rparr>) = bus_of w"
  by (simp_all add: bus_of_def Printf_def set_client_def delete_client_def)

lemma clients_simps [simp]:
  "clients (server (Printf l w)) = clients (server w)"
  "clients (server (set_client c w)) = (clients (server w))(c \<mapsto> True)"
  "clients (server (delete_client c w)) = (clients (server w))(c := None)"
  by (simp_all add: Printf_def set_client_def delete_client_def)

lemma stdout_simps [simp]:
  "stdout (Printf l w) = stdout w @ [l]"
  "stdout (set_client c w) = stdout w"
  "stdout (delete_client c w) = stdout w"
  by (simp_all add: Printf_def set_client_def delete_client_def)

lemma outbox_simps [simp]:
  "outbox (Printf l w) = outbox w"
  "outbox (set_client c w) = outbox w"
  "outbox (delete_client c w) = outbox w"
  by (simp_all add: Printf_def set_client_def delete_client_def)

lemma broadcast_step:
  "broadcast e msg (c # rest) w =
     (if clients (server w) c = None then broadcast e msg rest w
      else if write_fails e c
        then (case Dispatch (call_handler e) bus_of ''disconnected'' (DConn c) w of
                Inl p \<Rightarrow> Inl p | Inr w' \<Rightarrow> broadcast e msg rest w')
        else broadcast e msg rest (w\<lparr>outbox := (outbox w)(c := outbox w c @ [msg])\<rparr>))"
  by (simp add: conn_Write_def)

lemma broadcast_started:
  assumes "bus_of w = started_bus" "distinct ks"
  shows "\<exists>w'. broadcast e msg ks w = Inr w' \<and>
     outbox w' = (\<lambda>c. if c \<in> set ks \<and> clients (server w) c \<noteq> None \<and> \<not> write_fails e c
                      then outbox w c @ [msg] else outbox w c) \<and>
     clients (server w') = (\<lambda>c. if c \<in> set ks \<and> write_fails e c then None
                                 else clients (server w) c) \<and>
     stdout w' = stdout w @ map (notice e)
                   (filter (\<lambda>c. clients (server w) c \<noteq> None \<and> write_fails e c) ks) \<and>
     untouched w' = untouched w"
  using assms
proof (induction ks arbitrary: w)
  case Nil
  then show ?case by simp
next
  case (Cons c rest)
  have d: "distinct rest" and c: "c \<notin> set rest" using Cons.prems by auto
  consider (absent) "clients (server w) c = None"
    | (failed) "clients (server w) c \<noteq> None" "write_fails e c"
    | (written) "clients (server w) c \<noteq> None" "\<not> write_fails e c" by blast
  then show ?case
  proof cases
    case absent
    from Cons.IH[OF Cons.prems(1) d] obtain w' where w': "broadcast e msg rest w = Inr w'"
      "outbox w' = (\<lambda>c. if c \<in> set rest \<and> clients (server w) c \<noteq> None \<and> \<not> write_fails e c
                      then outbox w c @ [msg] else outbox w c)"
      "clients (server w') = (\<lambda>c. if c \<in> set rest \<and> write_fails e c then None
                                 else clients (server w) c)"
     "stdout w' = stdout w @ map (notice e)
                   (filter (\<lambda>c. clients (server w) c \<noteq> None \<and> write_fails e c) rest)"
     "untouched w' = untouched w" by blast
    show ?thesis
      apply (rule exI[of _ w'])
      using absent w' by (subst broadcast_step) (auto simp: fun_eq_iff)
  next
    case failed
    let ?w1 = "Printf (notice e c) (delete_client c w)"
    have b1: "bus_of ?w1 = started_bus" using Cons.prems(1) by simp
    have step: "broadcast e msg (c # rest) w = broadcast e msg rest ?w1"
      using failed Cons.prems(1) by (subst broadcast_step) (auto simp: Dispatch_started notice_def)
    from Cons.IH[OF b1 d] obtain w' where w': "broadcast e msg rest ?w1 = Inr w'"
      "outbox w' = (\<lambda>c. if c \<in> set rest \<and> clients (server ?w1) c \<noteq> None \<and> \<not> write_fails e c
                      then outbox ?w1 c @ [msg] else outbox ?w1 c)"
      "clients (server w') = (\<lambda>c. if c \<in> set rest \<and> write_fails e c then None
                                 else clients (server ?w1) c)"
     "stdout w' = stdout ?w1 @ map (notice e)
                   (filter (\<lambda>c. clients (server ?w1) c \<noteq> None \<and> write_fails e c) rest)"
     "untouched w' = untouched ?w1" by blast
    have f: "filter (\<lambda>c'. clients (server ?w1) c' \<noteq> None \<and> write_fails e c') rest
           = filter (\<lambda>c'. clients (server w) c' \<noteq> None \<and> write_fails e c') rest"
      using c by (intro filter_cong) auto
    show ?thesis
      apply (rule exI[of _ w'])
      unfolding step using failed w' c f by (auto simp: fun_eq_iff)
  next
    case written
    let ?w1 = "w\<lparr>outbox := (outbox w)(c := outbox w c @ [msg])\<rparr>"
    have b1: "bus_of ?w1 = started_bus" using Cons.prems(1) by simp
    have step: "broadcast e msg (c # rest) w = broadcast e msg rest ?w1"
      using written by (subst broadcast_step) auto
    from Cons.IH[OF b1 d] obtain w' where w': "broadcast e msg rest ?w1 = Inr w'"
      "outbox w' = (\<lambda>c. if c \<in> set rest \<and> clients (server ?w1) c \<noteq> None \<and> \<not> write_fails e c
                      then outbox ?w1 c @ [msg] else outbox ?w1 c)"
      "clients (server w') = (\<lambda>c. if c \<in> set rest \<and> write_fails e c then None
                                 else clients (server ?w1) c)"
     "stdout w' = stdout ?w1 @ map (notice e)
                   (filter (\<lambda>c. clients (server ?w1) c \<noteq> None \<and> write_fails e c) rest)"
     "untouched w' = untouched ?w1" by blast
    show ?thesis
      apply (rule exI[of _ w'])
      unfolding step using written w' c by (auto simp: fun_eq_iff untouched_def bus_of_def)
  qed
qed


text \<open>
  Claim C2. Let the server run with the handlers of \<^verbatim>\<open>Start\<close>, and let \<^verbatim>\<open>range\<close> visit
  each key of the registry once. A dispatch of \<^verbatim>\<open>message-received\<close> with the text
  \<open>M\<close> returns without a panic, and afterwards: every member of the registry whose
  write succeeds has received one more write, of exactly \<open>M\<close> (no member is left
  out, so the sender of \<open>M\<close> is served like the others); a member whose write fails
  has received nothing and is no longer in the registry, removed by the dispatch of
  \<^verbatim>\<open>disconnected\<close> that prints its notice; the members after it are served all the
  same; nothing is written to a connection outside the registry, so the failure is
  reported to nobody; the handler table, the unread input and the pending accepts
  are as before.
\<close>

theorem broadcast_reaches_every_member:
  assumes "bus_of w = started_bus"
    and "distinct (range_order e (clients (server w)))"
    and "set (range_order e (clients (server w))) = dom (clients (server w))"
  shows "\<exists>w'. Dispatch (call_handler e) bus_of ''message-received'' (DStr M) w = Inr w' \<and>
      (\<forall>c. outbox w' c = (if c \<in> dom (clients (server w)) \<and> \<not> write_fails e c
                            then outbox w c @ [M] else outbox w c)) \<and>
      (\<forall>c. clients (server w') c = (if write_fails e c then None else clients (server w) c)) \<and>
      stdout w' = stdout w @ map (notice e) (filter (write_fails e) (range_order e (clients (server w)))) \<and>
      bus_of w' = bus_of w \<and> inbox w' = inbox w \<and> backlog w' = backlog w"
proof -
  let ?ks = "range_order e (clients (server w))"
  from broadcast_started[OF assms(1,2), of e M] obtain w' where w':
    "broadcast e M ?ks w = Inr w'"
    "outbox w' = (\<lambda>c. if c \<in> set ?ks \<and> clients (server w) c \<noteq> None \<and> \<not> write_fails e c
                      then outbox w c @ [M] else outbox w c)"
    "clients (server w') = (\<lambda>c. if c \<in> set ?ks \<and> write_fails e c then None
                                 else clients (server w) c)"
    "stdout w' = stdout w @ map (notice e)
                   (filter (\<lambda>c. clients (server w) c \<noteq> None \<and> write_fails e c) ?ks)"
    "untouched w' = untouched w" by blast
  have f: "filter (\<lambda>c. clients (server w) c \<noteq> None \<and> write_fails e c) ?ks = filter (write_fails e) ?ks"
    using assms(3) by (intro filter_cong) auto
  have d: "Dispatch (call_handler e) bus_of ''message-received'' (DStr M) w = Inr w'"
    using w'(1) by (simp add: Dispatch_started[OF assms(1)])
  have ob: "\<forall>c. outbox w' c = (if c \<in> dom (clients (server w)) \<and> \<not> write_fails e c
                            then outbox w c @ [M] else outbox w c)"
    unfolding w'(2) assms(3) by auto
  have cl: "\<forall>c. clients (server w') c = (if write_fails e c then None else clients (server w) c)"
    unfolding w'(3) assms(3) by auto
  show ?thesis
    using d ob cl w'(4) w'(5)[unfolded untouched_eq] f by auto
qed

lemma sample_order: "range_order sample_env (clients (server sample_world)) = [Conn 3, Conn 1, Conn 2]"
  by (auto simp: sample_env_def sample_world_def)

theorem broadcast_reaches_every_member_witness:
  "\<exists>w'. Dispatch (call_handler sample_env) bus_of ''message-received'' (DStr ''hello'') sample_world = Inr w' \<and>
     outbox w' (Conn 1) = [''hello''] \<and> outbox w' (Conn 2) = [] \<and> outbox w' (Conn 3) = [''hello''] \<and>
     outbox w' (Conn 4) = [] \<and>
     clients (server w') (Conn 1) = Some True \<and> clients (server w') (Conn 2) = None \<and>
     clients (server w') (Conn 3) = Some True \<and>
     stdout w' = [''Disconnected from 10.0.0.7:5000\<newline>'']"
proof -
  have b: "bus_of sample_world = started_bus" by (simp add: sample_world_def bus_of_def)
  have d: "distinct (range_order sample_env (clients (server sample_world)))"
    unfolding sample_order by simp
  have s: "set (range_order sample_env (clients (server sample_world))) = dom (clients (server sample_world))"
    unfolding sample_order by (auto simp: sample_world_def)
  from broadcast_reaches_every_member[OF b d s, of "''hello''"] obtain w' where w':
     "Dispatch (call_handler sample_env) bus_of ''message-received'' (DStr ''hello'') sample_world = Inr w'"
     "\<forall>c. outbox w' c = (if c \<in> dom (clients (server sample_world)) \<and> \<not> write_fails sample_env c
                            then outbox sample_world c @ [''hello''] else outbox sample_world c)"
      "\<forall>c. clients (server w') c = (if write_fails sample_env c then None else clients (server sample_world) c)"
      "stdout w' = stdout sample_world @ map (notice sample_env) (filter (write_fails sample_env) (range_order sample_env (clients (server sample_world))))"
    by blast
  show ?thesis
    apply (rule exI[of _ w'])
    unfolding w'(2)[rule_format] w'(3)[rule_format] w'(4) sample_order
    using w'(1) by (simp add: sample_world_def sample_env_def notice_def)
qed


lemma delete_client_absent: "clients (server w) c = None \<Longrightarrow> delete_client c w = w"
  by (simp add: delete_client_def fun_upd_idem)

lemma notice_eq: "''Disconnected from '' @ RemoteAddr e c @ ''\<newline>'' = notice e c"
  by (simp add: notice_def)

text \<open>
  Claim C3. With the handlers of \<^verbatim>\<open>Start\<close>: a dispatch of \<^verbatim>\<open>new-connection\<close> for the
  connection \<open>C\<close> returns with \<open>C\<close> in the registry, and a dispatch of
  \<^verbatim>\<open>disconnected\<close> for \<open>C\<close> that follows returns with \<open>C\<close> out of it; from any state
  a dispatch of \<^verbatim>\<open>disconnected\<close> for \<open>C\<close> leaves \<open>C\<close> out of the registry, and when
  \<open>C\<close> was not in the registry, the registry is as it was.
\<close>

theorem registry_follows_connection_events:
  assumes "bus_of w = started_bus"
  shows "(\<exists>w1 w2.
      Dispatch (call_handler e) bus_of ''new-connection'' (DConn C) w = Inr w1 \<and>
      C \<in> dom (clients (server w1)) \<and>
      Dispatch (call_handler e) bus_of ''disconnected'' (DConn C) w1 = Inr w2 \<and>
      C \<notin> dom (clients (server w2))) \<and>
    (\<exists>w'. Dispatch (call_handler e) bus_of ''disconnected'' (DConn C) w = Inr w' \<and>
      C \<notin> dom (clients (server w')) \<and>
      (C \<notin> dom (clients (server w)) \<longrightarrow> clients (server w') = clients (server w)))"
  using assms by (auto simp: Dispatch_started fun_eq_iff)

theorem registry_follows_connection_events_witness:
  "\<exists>w1 w2.
      Dispatch (call_handler sample_env) bus_of ''new-connection'' (DConn (Conn 7)) idle_world = Inr w1 \<and>
      Conn 7 \<in> dom (clients (server w1)) \<and>
      Dispatch (call_handler sample_env) bus_of ''disconnected'' (DConn (Conn 7)) w1 = Inr w2 \<and>
      Conn 7 \<notin> dom (clients (server w2))"
proof -
  have b: "bus_of idle_world = started_bus" by (simp add: idle_world_def bus_of_def)
  show ?thesis using registry_follows_connection_events[OF b, of sample_env "Conn 7"] by blast
qed

text \<open>
  Claim C6, as stated, fails: \<^verbatim>\<open>onDisconnected\<close> prints its notice whether or not the
  connection was in the registry. On a server with an empty registry two dispatches of
  \<^verbatim>\<open>disconnected\<close> for connection 1 in a row both return, the second from the state
  the first left, and the second prints the notice of the first once more: the
  output holds it twice, and the state after the second is not the state after the
  first.
\<close>

theorem repeated_disconnected_repeats_notice:
  "Dispatch (call_handler sample_env) bus_of ''disconnected'' (DConn (Conn 1)) idle_world
     = Inr (Printf ''Disconnected from 10.0.0.7:5000\<newline>'' idle_world) \<and>
   Dispatch (call_handler sample_env) bus_of ''disconnected'' (DConn (Conn 1))
       (Printf ''Disconnected from 10.0.0.7:5000\<newline>'' idle_world)
     = Inr (Printf ''Disconnected from 10.0.0.7:5000\<newline>''
             (Printf ''Disconnected from 10.0.0.7:5000\<newline>'' idle_world)) \<and>
   stdout (Printf ''Disconnected from 10.0.0.7:5000\<newline>''
             (Printf ''Disconnected from 10.0.0.7:5000\<newline>'' idle_world))
     = [''Disconnected from 10.0.0.7:5000\<newline>'', ''Disconnected from 10.0.0.7:5000\<newline>''] \<and>
   Printf ''Disconnected from 10.0.0.7:5000\<newline>''
             (Printf ''Disconnected from 10.0.0.7:5000\<newline>'' idle_world)
     \<noteq> Printf ''Disconnected from 10.0.0.7:5000\<newline>'' idle_world"
proof -
  have b: "bus_of idle_world = started_bus" by (simp add: idle_world_def bus_of_def)
  have c: "clients (server idle_world) k = None" for k by (simp add: idle_world_def)
  have s: "stdout idle_world = []" by (simp add: idle_world_def)
  have r: "RemoteAddr sample_env k = ''10.0.0.7:5000''" for k by (simp add: sample_env_def)
  have n: "Printf l (Printf l idle_world) \<noteq> Printf l idle_world" for l
  proof
    assume "Printf l (Printf l idle_world) = Printf l idle_world"
    then have "stdout (Printf l (Printf l idle_world)) = stdout (Printf l idle_world)" by simp
    then show False by (simp add: s)
  qed
  show ?thesis
    using n by (simp add: Dispatch_started b r delete_client_absent c s)
qed

text \<open>
  Claim C6, amended. With the handlers of \<^verbatim>\<open>Start\<close> and a connection \<open>C\<close> that is not
  in the registry, two dispatches of \<^verbatim>\<open>disconnected\<close> for \<open>C\<close> in a row both return
  without a panic; the server (registry and handler table) and what the connections
  have received are unchanged; each of the two dispatches prints the notice
  \<^verbatim>\<open>Disconnected from ...\<close> of \<open>C\<close>, so the output grows by two equal lines.
\<close>

theorem repeated_disconnected_keeps_registry_prints_again:
  assumes "bus_of w = started_bus" and "C \<notin> dom (clients (server w))"
  shows "Dispatch (call_handler e) bus_of ''disconnected'' (DConn C) w = Inr (Printf (notice e C) w) \<and>
    Dispatch (call_handler e) bus_of ''disconnected'' (DConn C) (Printf (notice e C) w)
      = Inr (Printf (notice e C) (Printf (notice e C) w)) \<and>
    server (Printf (notice e C) (Printf (notice e C) w)) = server w \<and>
    outbox (Printf (notice e C) (Printf (notice e C) w)) = outbox w \<and>
    stdout (Printf (notice e C) (Printf (notice e C) w)) = stdout w @ [notice e C, notice e C]"
proof -
  have c: "clients (server w) C = None" using assms(2) by (simp add: domIff)
  have c': "clients (server (Printf (notice e C) w)) C = None" using c by simp
  show ?thesis
    using assms(1) by (simp add: Dispatch_started notice_def delete_client_absent c c') (simp add: Printf_def)
qed


theorem repeated_disconnected_keeps_registry_prints_again_witness:
  "Dispatch (call_handler sample_env) bus_of ''disconnected'' (DConn (Conn 5)) idle_world
     = Inr (Printf (notice sample_env (Conn 5)) idle_world) \<and>
   Dispatch (call_handler sample_env) bus_of ''disconnected'' (DConn (Conn 5))
       (Printf (notice sample_env (Conn 5)) idle_world)
     = Inr (Printf (notice sample_env (Conn 5)) (Printf (notice sample_env (Conn 5)) idle_world)) \<and>
   server (Printf (notice sample_env (Conn 5)) (Printf (notice sample_env (Conn 5)) idle_world))
     = server idle_world \<and>
   stdout (Printf (notice sample_env (Conn 5)) (Printf (notice sample_env (Conn 5)) idle_world))
     = [''Disconnected from 10.0.0.7:5000\<newline>'', ''Disconnected from 10.0.0.7:5000\<newline>'']"
proof -
  have b: "bus_of idle_world = started_bus" by (simp add: idle_world_def bus_of_def)
  have c: "Conn 5 \<notin> dom (clients (server idle_world))" by (simp add: idle_world_def)
  have s: "stdout idle_world = []" by (simp add: idle_world_def)
  have n: "notice sample_env (Conn 5) = ''Disconnected from 10.0.0.7:5000\<newline>''"
    by (simp add: notice_def sample_env_def)
  show ?thesis
    using repeated_disconnected_keeps_registry_prints_again[OF b c, of sample_env]
    by (simp add: s n)
qed

lemma broadcast_started_returns:
  "bus_of w = started_bus \<Longrightarrow> \<exists>w'. broadcast e msg ks w = Inr w'"
proof (induction ks arbitrary: w)
  case Nil
  then show ?case by simp
next
  case (Cons c rest)
  have 1: "\<exists>w'. broadcast e msg rest w = Inr w'" using Cons by blast
  have 2: "\<exists>w'. broadcast e msg rest (Printf (notice e c) (delete_client c w)) = Inr w'"
    using Cons.prems by (intro Cons.IH) simp
  have 3: "\<exists>w'. broadcast e msg rest (w\<lparr>outbox := (outbox w)(c := outbox w c @ [msg])\<rparr>) = Inr w'"
    using Cons.prems by (intro Cons.IH) simp
  show ?case
    using 1 2 3 Cons.prems by (subst broadcast_step) (auto simp: Dispatch_started notice_def)
qed

text \<open>
  Claim C9. \<^verbatim>\<open>onNewConnection\<close> and \<^verbatim>\<open>onDisconnected\<close> panic on every payload that
  is not a connection, and \<^verbatim>\<open>onMessageReceived\<close> panics on every payload that is
  not a string, in any state; with the handlers of \<^verbatim>\<open>Start\<close> the dispatch of the
  type panics likewise. With the handlers of \<^verbatim>\<open>Start\<close> and the payload that the
  type is documented to carry, every dispatch returns: \<^verbatim>\<open>new-connection\<close> and
  \<^verbatim>\<open>disconnected\<close> with a connection, \<^verbatim>\<open>message-received\<close> with a string (the
  dispatches of \<^verbatim>\<open>disconnected\<close> that the broadcast makes carry a connection), in
  whatever order \<^verbatim>\<open>range\<close> visits the registry.
\<close>

theorem handlers_panic_only_on_wrong_payload:
  "((\<forall>c. d \<noteq> DConn c) \<longrightarrow>
      call_handler e onNewConnection \<lparr>Type = t, Data = d\<rparr> w = Inl InterfaceConversion \<and>
      call_handler e onDisconnected \<lparr>Type = t, Data = d\<rparr> w = Inl InterfaceConversion) \<and>
   ((\<forall>m. d \<noteq> DStr m) \<longrightarrow>
      call_handler e onMessageReceived \<lparr>Type = t, Data = d\<rparr> w = Inl InterfaceConversion) \<and>
   (bus_of w = started_bus \<longrightarrow>
      ((\<forall>c. d \<noteq> DConn c) \<longrightarrow>
         Dispatch (call_handler e) bus_of ''new-connection'' d w = Inl InterfaceConversion \<and>
         Dispatch (call_handler e) bus_of ''disconnected'' d w = Inl InterfaceConversion) \<and>
      ((\<forall>m. d \<noteq> DStr m) \<longrightarrow>
         Dispatch (call_handler e) bus_of ''message-received'' d w = Inl InterfaceConversion) \<and>
      (\<exists>w'. Dispatch (call_handler e) bus_of ''new-connection'' (DConn c) w = Inr w') \<and>
      (\<exists>w'. Dispatch (call_handler e) bus_of ''disconnected'' (DConn c) w = Inr w') \<and>
      (\<exists>w'. Dispatch (call_handler e) bus_of ''message-received'' (DStr m) w = Inr w'))"
proof -
  have a: "call_handler e onNewConnection \<lparr>Type = t, Data = d\<rparr> w = Inl InterfaceConversion"
      "call_handler e onDisconnected \<lparr>Type = t, Data = d\<rparr> w = Inl InterfaceConversion"
    if "\<forall>c. d \<noteq> DConn c" for t
    using that by (cases d; simp)+
  have b: "call_handler e onMessageReceived \<lparr>Type = t, Data = d\<rparr> w = Inl InterfaceConversion"
    if "\<forall>m. d \<noteq> DStr m" for t
    using that by (cases d; simp)
  have c: "\<exists>w'. Dispatch (call_handler e) bus_of ''message-received'' (DStr m) w = Inr w'"
    if "bus_of w = started_bus"
    using that broadcast_started_returns[OF that] by (simp add: Dispatch_started)
  show ?thesis
    using a b c by (auto simp: Dispatch_started)
qed

theorem handlers_panic_only_on_wrong_payload_witness:
  "Dispatch (call_handler sample_env) bus_of ''new-connection'' (DStr ''hello'') sample_world
     = Inl InterfaceConversion \<and>
   Dispatch (call_handler sample_env) bus_of ''disconnected'' DNil sample_world
     = Inl InterfaceConversion \<and>
   Dispatch (call_handler sample_env) bus_of ''message-received'' (DConn (Conn 3)) sample_world
     = Inl InterfaceConversion \<and>
   (\<exists>w'. Dispatch (call_handler sample_env) bus_of ''message-received'' (DStr ''hello'') sample_world = Inr w')"
proof -
  have b: "bus_of sample_world = started_bus" by (simp add: sample_world_def bus_of_def)
  show ?thesis
    using b handlers_panic_only_on_wrong_payload[of "DStr ''hello''" sample_env "''new-connection''" sample_world _ "''hello''"]
      handlers_panic_only_on_wrong_payload[of DNil sample_env "''new-connection''" sample_world]
      handlers_panic_only_on_wrong_payload[of "DConn (Conn 3)" sample_env "''new-connection''" sample_world]
    by simp
qed

text \<open>
  Claim C10. \<^verbatim>\<open>Register(t, h)\<close> makes the handlers of \<open>t\<close> the former ones followed
  by \<open>h\<close>, and leaves the entry of every other type as it was (absent, or the same
  list). \<^verbatim>\<open>Dispatch\<close> itself never writes the table: when the handlers it calls
  leave the bus alone, a dispatch that returns leaves the bus as it was; the three
  handlers of the chat server do, so every dispatch on the server that returns, of
  any type with any payload in any state, leaves the handler table as it was.
\<close>

theorem Register_appends_Dispatch_keeps_table:
  "handlers_at (Register eb t h) t = handlers_at eb t @ [h] \<and>
   (\<forall>t'. t' \<noteq> t \<longrightarrow> handlers (Register eb t h) t' = handlers eb t') \<and>
   ((\<forall>g ev x x'. call g ev x = Inr x' \<longrightarrow> bus x' = bus x) \<longrightarrow>
      Dispatch call bus u d s = Inr s' \<longrightarrow> bus s' = bus s) \<and>
   (Dispatch (call_handler e) bus_of u d w = Inr w' \<longrightarrow> bus_of w' = bus_of w)"
proof -
  have 1: "bus s' = bus s"
    if "\<forall>g ev x x'. call g ev x = Inr x' \<longrightarrow> bus x' = bus x" "Dispatch call bus u d s = Inr s'"
    using that(2) by (rule Dispatch_frame[rotated]) (use that(1) in blast)
  have 2: "bus_of w' = bus_of w" if "Dispatch (call_handler e) bus_of u d w = Inr w'"
    using Dispatch_untouched[OF that] by (intro EventBus_eqI) (simp add: untouched_def)
  show ?thesis
    using 1 2 by (simp add: handlers_at_Register handlers_Register_other)
qed

theorem Register_appends_Dispatch_keeps_table_witness:
  "handlers_at (Register ticking_bus ''tick'' 4) ''tick'' = [1, 2, 1, 4] \<and>
   handlers (Register ticking_bus ''tick'' 4) ''tock'' = Some [9] \<and>
   bus_of (Printf ''New connection from 10.0.0.7:5000\<newline>'' (set_client (Conn 7) idle_world)) = bus_of idle_world"
proof -
  have d: "Dispatch (call_handler sample_env) bus_of ''new-connection'' (DConn (Conn 7)) idle_world
     = Inr (Printf ''New connection from 10.0.0.7:5000\<newline>'' (set_client (Conn 7) idle_world))"
    by (simp add: Dispatch_started idle_world_def bus_of_def sample_env_def)
  have h: "handlers_at ticking_bus ''tick'' = [1, 2, 1]" "handlers ticking_bus ''tock'' = Some [9]"
    by (simp_all add: ticking_bus_def handlers_at_register_all)
       (simp add: register_all_def Register_def NewEventBus_def handlers_at_def)
  show ?thesis
    using Register_appends_Dispatch_keeps_table[where eb = ticking_bus and t = "''tick''" and h = 4 and e = sample_env
        and call = note_call and bus = fst and s = "(ticking_bus, [])"
        and s' = "(ticking_bus, [1, 2, 1])"
        and u = "''new-connection''" and d = "DConn (Conn 7)" and w = idle_world
        and w' = "Printf ''New connection from 10.0.0.7:5000\<newline>'' (set_client (Conn 7) idle_world)"] d h
    by simp
qed


section \<open>Starting the server\<close>

lemma bus_of_server_Register [simp]:
  "bus_of (server_Register t h w) = Register (bus_of w) t h"
  by (simp add: server_Register_def bus_of_def)

lemma bus_of_NewChatServer [simp]: "bus_of (w\<lparr>server := NewChatServer\<rparr>) = NewEventBus"
  by (simp add: bus_of_def NewChatServer_def)

lemma Start_wires_started_bus:
  "bus_of (server_Register ''message-received'' onMessageReceived
     (server_Register ''disconnected'' onDisconnected
       (server_Register ''new-connection'' onNewConnection
          (Printf l (w\<lparr>server := NewChatServer\<rparr>))))) = started_bus"
  by (simp add: started_bus_def)

text \<open>
  Claim C8. When \<^verbatim>\<open>net.Listen\<close> fails, \<^verbatim>\<open>Start\<close> returns that error with the state
  as it was: no handler is registered and no pending accept is taken. \<^verbatim>\<open>main\<close> then
  prints the error and returns, which ends the process: the state it leaves has the
  fresh server (empty handler table, empty registry), the pending accepts untouched,
  and one more line on the output.
\<close>

theorem listen_failure_is_fatal:
  assumes "net_Listen e port = Some err"
  shows "ChatServer_Start e port w = Returned (Some err) w \<and>
    (port = '':8000'' \<longrightarrow>
       main e w = Returned () (Printf (''Error starting server: '' @ err @ ''\<newline>'')
                                (w\<lparr>server := NewChatServer\<rparr>)) \<and>
       bus_of (Printf (''Error starting server: '' @ err @ ''\<newline>'')
                 (w\<lparr>server := NewChatServer\<rparr>)) = NewEventBus \<and>
       clients (server (Printf (''Error starting server: '' @ err @ ''\<newline>'')
                 (w\<lparr>server := NewChatServer\<rparr>))) = Map.empty \<and>
       backlog (Printf (''Error starting server: '' @ err @ ''\<newline>'')
                 (w\<lparr>server := NewChatServer\<rparr>)) = backlog w)"
  using assms
  by (auto simp: main_def ChatServer_Start_def Printf_def NewChatServer_def bus_of_def)

theorem listen_failure_is_fatal_witness:
  "main refusing_env knocking_world =
     Returned () \<lparr>server = NewChatServer,
       stdout = [''Error starting server: address already in use\<newline>''],
       outbox = (\<lambda>c. []),
       inbox = (\<lambda>c. if c = Conn 4 then [Bytes ''hello''] else []),
       backlog = [Inl ''timeout'', Inr (Conn 4)]\<rparr>"
proof -
  have l: "net_Listen refusing_env '':8000'' = Some ''address already in use''"
    by (simp add: refusing_env_def)
  show ?thesis
    using listen_failure_is_fatal[OF l, of knocking_world]
    by (simp add: Printf_def knocking_world_def)
qed

lemma accept_loop_step:
  "accept_loop e w =
     (case backlog w of
        [] \<Rightarrow> Blocked w
      | Inl err # rest \<Rightarrow>
          accept_loop e (Printf (''Error accepting connection: '' @ err @ ''\<newline>'')
                           (w\<lparr>backlog := rest\<rparr>))
      | Inr c # rest \<Rightarrow>
          (case Dispatch (call_handler e) bus_of ''new-connection'' (DConn c)
                  (w\<lparr>backlog := rest\<rparr>) of
             Inl p \<Rightarrow> Panicked p
           | Inr w' \<Rightarrow> accept_loop e w'))"
  by (rule accept_loop.simps)

text \<open>
  With the handlers of \<^verbatim>\<open>Start\<close> the accept loop never ends: when the pending accepts
  are used up it is blocked in \<^verbatim>\<open>Accept\<close>, with every accepted connection in the
  registry. An accept error only prints. Nothing is read from any connection and
  nothing is written to one.
\<close>

lemma accept_loop_keeps_serving:
  "bus_of w = started_bus \<Longrightarrow>
     \<exists>w'. accept_loop e w = Blocked w' \<and> inbox w' = inbox w \<and> outbox w' = outbox w \<and>
          bus_of w' = started_bus \<and> backlog w' = [] \<and>
          dom (clients (server w')) = dom (clients (server w)) \<union> {c. Inr c \<in> set (backlog w)}"
proof (induction e w rule: accept_loop.induct)
  case (1 e w)
  show ?case
  proof (cases "backlog w")
    case Nil
    then show ?thesis using 1(3) by (subst accept_loop_step) simp
  next
    case (Cons a rest)
    show ?thesis
    proof (cases a)
      case (Inl err)
      let ?w1 = "Printf (''Error accepting connection: '' @ err @ ''\<newline>'') (w\<lparr>backlog := rest\<rparr>)"
      have b1: "bus_of ?w1 = started_bus" using 1(3) by (simp add: bus_of_def Printf_def)
      from 1(1)[OF Cons Inl b1] obtain w' where
        "accept_loop e ?w1 = Blocked w'" "inbox w' = inbox ?w1" "outbox w' = outbox ?w1"
        "bus_of w' = started_bus" "backlog w' = []"
        "dom (clients (server w')) = dom (clients (server ?w1)) \<union> {c. Inr c \<in> set (backlog ?w1)}"
        by blast
      then show ?thesis
        using Cons Inl by (subst accept_loop_step) (auto simp: Printf_def)
    next
      case (Inr c)
      let ?w0 = "w\<lparr>backlog := rest\<rparr>"
      let ?w1 = "Printf (''New connection from '' @ RemoteAddr e c @ ''\<newline>'') (set_client c ?w0)"
      have b0: "bus_of ?w0 = started_bus" using 1(3) by (simp add: bus_of_def)
      have d: "Dispatch (call_handler e) bus_of ''new-connection'' (DConn c) ?w0 = Inr ?w1"
        unfolding Dispatch_started(1)[OF b0] by simp
      have b1: "bus_of ?w1 = started_bus" using b0 by simp
      from 1(2)[OF Cons Inr d b1] obtain w' where
        "accept_loop e ?w1 = Blocked w'" "inbox w' = inbox ?w1" "outbox w' = outbox ?w1"
        "bus_of w' = started_bus" "backlog w' = []"
        "dom (clients (server w')) = dom (clients (server ?w1)) \<union> {c. Inr c \<in> set (backlog ?w1)}"
        by blast
      then show ?thesis
        using Cons Inr d by (subst accept_loop_step) (auto simp: Printf_def set_client_def)
    qed
  qed
qed

text \<open>
  Claim C4, on the sample where one accept fails and connection 4 is then accepted,
  with \<^verbatim>\<open>hello\<close> already sent on it. \<^verbatim>\<open>main\<close> reports the failed accept and goes on,
  dispatches \<^verbatim>\<open>new-connection\<close> for connection 4, and is then blocked in
  \<^verbatim>\<open>Accept\<close>. No reader loop was started: \<^verbatim>\<open>Start\<close> never makes a \<^verbatim>\<open>Client\<close> , so
  the bytes of connection 4 stay unread, no \<^verbatim>\<open>message-received\<close> is dispatched and
  nothing is sent to anybody.
\<close>

theorem accept_starts_no_reader_loop:
  "main sample_env knocking_world =
     Blocked \<lparr>server = \<lparr>eventBus = started_bus, clients = [Conn 4 \<mapsto> True]\<rparr>,
       stdout = [''Listening on port :8000...\<newline>'', ''Error accepting connection: timeout\<newline>'',
                 ''New connection from 10.0.0.7:5000\<newline>''],
       outbox = (\<lambda>c. []),
       inbox = (\<lambda>c. if c = Conn 4 then [Bytes ''hello''] else []),
       backlog = []\<rparr>"
proof -
  let ?w0 = "server_Register ''message-received'' onMessageReceived
     (server_Register ''disconnected'' onDisconnected
       (server_Register ''new-connection'' onNewConnection
          (Printf ''Listening on port :8000...\<newline>'' (knocking_world\<lparr>server := NewChatServer\<rparr>))))"
  have l: "net_Listen sample_env p = None" for p by (simp add: sample_env_def)
  have r: "RemoteAddr sample_env k = ''10.0.0.7:5000''" for k by (simp add: sample_env_def)
  have m: "main sample_env knocking_world = (case accept_loop sample_env ?w0 of
        Panicked p \<Rightarrow> Panicked p | Blocked w' \<Rightarrow> Blocked w'
      | Returned err w' \<Rightarrow> (case err of
             Some msg \<Rightarrow> Returned () (Printf (''Error starting server: '' @ msg @ ''\<newline>'') w')
           | None \<Rightarrow> Returned () w'))"
    by (simp add: main_def ChatServer_Start_def l Let_def)
  have b: "bus_of ?w0 = started_bus" by (rule Start_wires_started_bus)
  have bl: "backlog ?w0 = [Inl ''timeout'', Inr (Conn 4)]"
    by (simp add: server_Register_def Printf_def knocking_world_def)
  let ?w1 = "Printf ''Error accepting connection: timeout\<newline>'' (?w0\<lparr>backlog := [Inr (Conn 4)]\<rparr>)"
  have s1: "accept_loop sample_env ?w0 = accept_loop sample_env ?w1"
    by (subst accept_loop_step) (simp add: bl)
  have b1: "bus_of (?w1\<lparr>backlog := []\<rparr>) = started_bus" using b by (simp add: bus_of_def Printf_def)
  have bl1: "backlog ?w1 = [Inr (Conn 4)]" by (simp add: Printf_def)
  let ?w2 = "Printf ''New connection from 10.0.0.7:5000\<newline>'' (set_client (Conn 4) (?w1\<lparr>backlog := []\<rparr>))"
  have s2: "accept_loop sample_env ?w1 = accept_loop sample_env ?w2"
    by (subst accept_loop_step) (simp add: bl1 Dispatch_started[OF b1] r)
  have bl2: "backlog ?w2 = []" by (simp add: Printf_def set_client_def)
  have s3: "accept_loop sample_env ?w2 = Blocked ?w2"
    by (subst accept_loop_step) (simp add: bl2)
  have "?w2 = \<lparr>server = \<lparr>eventBus = started_bus, clients = [Conn 4 \<mapsto> True]\<rparr>,
       stdout = [''Listening on port :8000...\<newline>'', ''Error accepting connection: timeout\<newline>'',
                 ''New connection from 10.0.0.7:5000\<newline>''],
       outbox = (\<lambda>c. []),
       inbox = (\<lambda>c. if c = Conn 4 then [Bytes ''hello''] else []),
       backlog = []\<rparr>"
    by (simp add: Printf_def set_client_def server_Register_def knocking_world_def NewChatServer_def started_bus_def)
  then show ?thesis using m s1 s2 s3 by simp
qed

section \<open>The reader loop\<close>

lemma range_handlers_commute:
  assumes "\<And>h t. h \<in> set hs \<Longrightarrow>
      call h ev (f t) = (case call h ev t of Inl p \<Rightarrow> Inl p | Inr t' \<Rightarrow> Inr (f t'))"
  shows "range_handlers call ev hs (f s) =
      (case range_handlers call ev hs s of Inl p \<Rightarrow> Inl p | Inr s' \<Rightarrow> Inr (f s'))"
  using assms by (induction hs arbitrary: s) (auto split: sum.splits)

lemma Dispatch_commute:
  assumes "bus (f s) = bus s"
    and "\<And>h t. h \<in> set (handlers_at (bus s) eventType) \<Longrightarrow>
      call h \<lparr>Type = eventType, Data = data\<rparr> (f t) =
        (case call h \<lparr>Type = eventType, Data = data\<rparr> t of Inl p \<Rightarrow> Inl p | Inr t' \<Rightarrow> Inr (f t'))"
  shows "Dispatch call bus eventType data (f s) =
      (case Dispatch call bus eventType data s of Inl p \<Rightarrow> Inl p | Inr s' \<Rightarrow> Inr (f s'))"
  unfolding Dispatch_def Let_def assms(1)
  by (rule range_handlers_commute) (use assms(2) in blast)

lemma call_handler_inbox:
  "call_handler e h ev (w\<lparr>inbox := i\<rparr>) =
     (case call_handler e h ev w of Inl p \<Rightarrow> Inl p | Inr w' \<Rightarrow> Inr (w'\<lparr>inbox := i\<rparr>))"
  and broadcast_inbox:
  "broadcast e msg ks (w\<lparr>inbox := i\<rparr>) =
     (case broadcast e msg ks w of Inl p \<Rightarrow> Inl p | Inr w' \<Rightarrow> Inr (w'\<lparr>inbox := i\<rparr>))"
proof (induction e h ev w and e msg ks w rule: call_handler_broadcast.induct)
  case (1 e event w)
  then show ?case by (simp add: Printf_def set_client_def split: dyn.splits)
next
  case (2 e event w)
  then show ?case by (simp add: Printf_def delete_client_def split: dyn.splits)
next
  case (3 e event w)
  then show ?case by (simp split: dyn.splits)
next
  case (4 e msg w)
  then show ?case by simp
next
  case (5 e msg c rest w)
  show ?case
  proof (cases "clients (server w) c = None")
    case True
    then show ?thesis using 5(1) by (subst (1 2) broadcast_step) auto
  next
    case False
    show ?thesis
    proof (cases "write_fails e c")
      case failed: True
      have w: "conn_Write e c msg w = (True, w)" using failed by (simp add: conn_Write_def)
      have d: "Dispatch (call_handler e) bus_of ''disconnected'' (DConn c) (w\<lparr>inbox := i\<rparr>) =
         (case Dispatch (call_handler e) bus_of ''disconnected'' (DConn c) w of
            Inl p \<Rightarrow> Inl p | Inr w' \<Rightarrow> Inr (w'\<lparr>inbox := i\<rparr>))"
      proof (rule Dispatch_commute)
        show "bus_of (w\<lparr>inbox := i\<rparr>) = bus_of w" by (simp add: bus_of_def)
      next
        fix h t
        assume "h \<in> set (handlers_at (bus_of w) ''disconnected'')"
        then show "call_handler e h \<lparr>Type = ''disconnected'', Data = DConn c\<rparr> (t\<lparr>inbox := i\<rparr>) =
          (case call_handler e h \<lparr>Type = ''disconnected'', Data = DConn c\<rparr> t of
             Inl p \<Rightarrow> Inl p | Inr t' \<Rightarrow> Inr (t'\<lparr>inbox := i\<rparr>))"
          using 5(2)[OF False w[symmetric] refl] by blast
      qed
      show ?thesis
      proof (cases "Dispatch (call_handler e) bus_of ''disconnected'' (DConn c) w")
        case (Inl p)
        then show ?thesis using False failed d by (subst (1 2) broadcast_step) auto
      next
        case (Inr b)
        then show ?thesis
          using False failed d 5(3)[OF False w[symmetric] refl Inr]
          by (subst (1 2) broadcast_step) auto
      qed
    next
      case written: False
      have w: "conn_Write e c msg w = (False, w\<lparr>outbox := (outbox w)(c := outbox w c @ [msg])\<rparr>)"
        using written by (simp add: conn_Write_def)
      have sw: "w\<lparr>inbox := i, outbox := (outbox w)(c := outbox w c @ [msg])\<rparr>
          = w\<lparr>outbox := (outbox w)(c := outbox w c @ [msg]), inbox := i\<rparr>"
        by simp
      show ?thesis
        using False written 5(4)[OF False w[symmetric] refl]
        by (subst (1 2) broadcast_step) (auto simp: sw)
    qed
  qed
qed


lemma take_min_1024: "take (min (length d) n) d = take n d"
  by (cases "length d \<le> n") (simp_all add: min_def)

lemma drop_min_1024: "drop (min (length d) n) d = drop n d"
  by (cases "length d \<le> n") (simp_all add: min_def)

lemma conn_Read_Bytes:
  assumes "inbox w c = Bytes d # rest"
  shows "conn_Read c buf w =
     Reads (min (length d) (length buf))
       (take (length buf) d @ drop (min (length d) (length buf)) buf)
       (w\<lparr>inbox := (inbox w)(c := if drop (length buf) d = [] then rest
                                     else Bytes (drop (length buf) d) # rest)\<rparr>)"
  using assms by (simp add: conn_Read_def Let_def take_min_1024 drop_min_1024 del: drop_eq_Nil)

lemma buffer_front:
  "take (min (length d) (length buf)) (take (length buf) d @ drop (min (length d) (length buf)) buf)
     = take (length buf) d"
  by (simp add: min_def)

lemma buffer_length:
  "length (take (length buf) d @ drop (min (length d) (length buf)) buf) = length buf"
  by (simp add: min_def)

lemma Dispatch_inbox:
  "Dispatch (call_handler e) bus_of t d (w\<lparr>inbox := i\<rparr>) =
     (case Dispatch (call_handler e) bus_of t d w of
        Inl p \<Rightarrow> Inl p | Inr w' \<Rightarrow> Inr (w'\<lparr>inbox := i\<rparr>))"
  by (rule Dispatch_commute) (simp_all add: bus_of_def call_handler_inbox)

lemma dispatch_all_inbox:
  "dispatch_all e evs (w\<lparr>inbox := i\<rparr>) =
     (case dispatch_all e evs w of Inl p \<Rightarrow> Inl p | Inr w' \<Rightarrow> Inr (w'\<lparr>inbox := i\<rparr>))"
  by (induction evs arbitrary: w) (auto simp: Dispatch_inbox split: sum.splits)

lemma Dispatch_keeps_inbox:
  "Dispatch (call_handler e) bus_of t d w = Inr w' \<Longrightarrow> inbox w' = inbox w"
  using Dispatch_untouched[of e t d w w'] by (simp add: untouched_def)

lemma reader_loop_result:
  "length buf = 1024 \<Longrightarrow> reader_loop e c buf w = Some (reader_result e c w)"
proof (induction "sum_list (map pending (inbox w c))" arbitrary: w buf rule: less_induct)
  case less
  show ?case
  proof (cases "inbox w c")
    case Nil
    then have "w\<lparr>inbox := (inbox w)(c := [])\<rparr> = w" by (simp add: fun_upd_idem)
    then show ?thesis
      using Nil by (subst reader_loop.simps) (simp add: conn_Read_def reader_result_def)
  next
    case (Cons a rest)
    show ?thesis
    proof (cases a)
      case (ReadError err)
      with Cons have i: "inbox w c = ReadError err # rest" by simp
      show ?thesis
        by (subst reader_loop.simps)
          (simp add: i conn_Read_def reader_result_def split: sum.splits)
    next
      case (Bytes d)
      with Cons have i: "inbox w c = Bytes d # rest" by simp
      define left where "left = (if drop 1024 d = [] then rest else Bytes (drop 1024 d) # rest)"
      define w1 where "w1 = w\<lparr>inbox := (inbox w)(c := left)\<rparr>"
      define buf' where "buf' = take 1024 d @ drop (min (length d) 1024) buf"
      define final where "final = (inbox w)(c := unread rest)"
      define msg where "msg = take 1024 d"
      have r: "conn_Read c buf w = Reads (min (length d) 1024) buf' w1"
        using conn_Read_Bytes[OF i, of buf] less.prems
        unfolding buf'_def w1_def left_def by simp
      have m: "take (min (length d) 1024) buf' = msg"
        using buffer_front[of d buf] less.prems unfolding buf'_def msg_def by simp
      have l: "length buf' = 1024"
        using buffer_length[of buf d] less.prems unfolding buf'_def by simp
      have u: "unread left = unread rest" unfolding left_def by simp
      have f: "read_fails left = read_fails rest" unfolding left_def by simp
      have smaller: "sum_list (map pending left) < sum_list (map pending (inbox w c))"
        unfolding i left_def by (cases "drop 1024 d = []") auto
      have ev: "spec_reader_events c (inbox w c) = (''message-received'', DStr msg) # spec_reader_events c left"
        unfolding i left_def msg_def by simp
      have wf: "w\<lparr>inbox := final\<rparr> = w1\<lparr>inbox := final\<rparr>"
        unfolding w1_def by simp
      have res: "reader_result e c w =
          (case dispatch_all e ((''message-received'', DStr msg) # spec_reader_events c left)
                  (w1\<lparr>inbox := final\<rparr>) of
             Inl p \<Rightarrow> Panicked p
           | Inr w' \<Rightarrow> if read_fails rest then Returned () w' else Blocked w')"
      proof -
        have a: "unread (inbox w c) = unread rest" by (simp add: i)
        have b: "read_fails (inbox w c) = read_fails rest" by (simp add: i)
        show ?thesis
          unfolding reader_result_def a b ev final_def[symmetric] wf by (rule refl)
      qed
      have loop: "reader_loop e c buf w =
          (case Dispatch (call_handler e) bus_of ''message-received'' (DStr msg) w1 of
             Inl p \<Rightarrow> Some (Panicked p)
           | Inr w'' \<Rightarrow> reader_loop e c buf' w'')"
        by (subst reader_loop.simps) (simp add: r m)
      show ?thesis
      proof (cases "Dispatch (call_handler e) bus_of ''message-received'' (DStr msg) w1")
        case (Inl p)
        then show ?thesis
          unfolding loop res by (simp add: Dispatch_inbox)
      next
        case (Inr w2)
        have i2: "inbox w2 = (inbox w)(c := left)"
          using Dispatch_keeps_inbox[OF Inr] unfolding w1_def by simp
        then have i2c: "inbox w2 c = left" by simp
        have ih: "reader_loop e c buf' w2 = Some (reader_result e c w2)"
          using less.hyps[of w2 buf'] smaller l unfolding i2c by simp
        have fin: "(inbox w2)(c := unread left) = final"
          unfolding i2 final_def by (simp add: u)
        have res2: "reader_result e c w2 =
          (case dispatch_all e (spec_reader_events c left) (w2\<lparr>inbox := final\<rparr>) of
             Inl p \<Rightarrow> Panicked p
           | Inr w' \<Rightarrow> if read_fails rest then Returned () w' else Blocked w')"
          unfolding reader_result_def i2c fin f by simp
        show ?thesis
          using Inr ih by (simp add: loop res res2 Dispatch_inbox)
      qed
    qed
  qed
qed


lemma read_fails_iff: "read_fails xs \<longleftrightarrow> (\<exists>err. ReadError err \<in> set xs)"
  by (induction xs rule: read_fails.induct) auto

lemma Dispatch_started_returns:
  assumes "bus_of w = started_bus"
  shows "\<exists>w'. Dispatch (call_handler e) bus_of ''new-connection'' (DConn c) w = Inr w' \<and> bus_of w' = started_bus"
    and "\<exists>w'. Dispatch (call_handler e) bus_of ''disconnected'' (DConn c) w = Inr w' \<and> bus_of w' = started_bus"
    and "\<exists>w'. Dispatch (call_handler e) bus_of ''message-received'' (DStr m) w = Inr w' \<and> bus_of w' = started_bus"
proof -
  show "\<exists>w'. Dispatch (call_handler e) bus_of ''new-connection'' (DConn c) w = Inr w' \<and> bus_of w' = started_bus"
    using assms by (simp add: Dispatch_started)
  show "\<exists>w'. Dispatch (call_handler e) bus_of ''disconnected'' (DConn c) w = Inr w' \<and> bus_of w' = started_bus"
    using assms by (simp add: Dispatch_started)
  from broadcast_started_returns[OF assms] obtain w' where
    w': "broadcast e m (range_order e (clients (server w))) w = Inr w'" by blast
  then have d: "Dispatch (call_handler e) bus_of ''message-received'' (DStr m) w = Inr w'"
    using assms by (simp add: Dispatch_started)
  have "bus_of w' = bus_of w"
    using Dispatch_untouched[OF d] by (intro EventBus_eqI) (simp add: untouched_def)
  then show "\<exists>w'. Dispatch (call_handler e) bus_of ''message-received'' (DStr m) w = Inr w' \<and> bus_of w' = started_bus"
    using d assms by simp
qed

lemma dispatch_all_spec_reader_events_returns:
  "bus_of w = started_bus \<Longrightarrow> \<exists>w'. dispatch_all e (spec_reader_events c xs) w = Inr w'"
proof (induction c xs arbitrary: w rule: spec_reader_events.induct)
  case (1 c)
  then show ?case by simp
next
  case (2 c err rest)
  then show ?case using Dispatch_started_returns(2)[OF 2, of e c] by auto
next
  case (3 c d rest)
  from Dispatch_started_returns(3)[OF 3(2), of e "take 1024 d"] obtain w1 where
    w1: "Dispatch (call_handler e) bus_of ''message-received'' (DStr (take 1024 d)) w = Inr w1"
    and b1: "bus_of w1 = started_bus" by blast
  from 3(1)[OF b1] show ?case using w1 by simp
qed

lemma spec_reader_events_shape:
  "ev \<in> set (spec_reader_events c xs) \<Longrightarrow>
     (\<exists>m. ev = (''message-received'', DStr m) \<and> length m \<le> 1024) \<or> ev = (''disconnected'', DConn c)"
proof (induction c xs rule: spec_reader_events.induct)
  case (1 c)
  then show ?case by simp
next
  case (2 c err rest)
  then show ?case by simp
next
  case (3 c d rest)
  define left where "left = (if drop 1024 d = [] then rest else Bytes (drop 1024 d) # rest)"
  have "spec_reader_events c (Bytes d # rest) = (''message-received'', DStr (take 1024 d)) # spec_reader_events c left"
    unfolding left_def by (rule spec_reader_events.simps)
  with 3(2) have "ev = (''message-received'', DStr (take 1024 d)) \<or> ev \<in> set (spec_reader_events c left)"
    by (simp only: list.set insert_iff)
  then show ?case
  proof
    assume "ev = (''message-received'', DStr (take 1024 d))"
    moreover have "length (take 1024 d) \<le> 1024" by simp
    ultimately show ?thesis by blast
  next
    assume "ev \<in> set (spec_reader_events c left)"
    then show ?thesis using 3(1) unfolding left_def by blast
  qed
qed

lemma reader_result_alt:
  assumes "inbox w0 = inbox w"
  shows "reader_result e c w0 =
     (case dispatch_all e (spec_reader_events c (inbox w c))
             (w0\<lparr>inbox := (inbox w)(c := unread (inbox w c))\<rparr>) of
        Inl p \<Rightarrow> Panicked p
      | Inr w' \<Rightarrow> if (\<exists>err. ReadError err \<in> set (inbox w c))
                  then Returned () w' else Blocked w')"
  unfolding reader_result_def read_fails_iff assms by (rule refl)

lemma spec_reader_events_splits_large_message:
  "spec_reader_events c [Bytes (replicate 2500 x)] =
     [(''message-received'', DStr (replicate 1024 x)),
      (''message-received'', DStr (replicate 1024 x)),
      (''message-received'', DStr (replicate 452 x))]"
  by simp

text \<open>
  Claim C5. \<^verbatim>\<open>Client.Start\<close> dispatches \<^verbatim>\<open>new-connection\<close> and then reads into its
  buffer of 1024 bytes. The run comes to a rest for every input, and is that of
  dispatching the events of the input in order: one \<^verbatim>\<open>message-received\<close> for each
  successful read, carrying exactly the bytes of that read (at most 1024, nothing
  joined or split otherwise), and at the first read error one \<^verbatim>\<open>disconnected\<close> for
  the connection. Unless a handler panics, the loop has returned exactly when a read
  error was met, and is blocked in \<^verbatim>\<open>Read\<close> otherwise. With the handlers of \<^verbatim>\<open>Start\<close>
  no handler panics.
\<close>

theorem Client_Start_dispatches_every_read:
  "Client_Start e cl w =
     (case Dispatch (call_handler e) bus_of ''new-connection'' (DConn (conn cl)) w of
        Inl p \<Rightarrow> Some (Panicked p)
      | Inr w0 \<Rightarrow>
          Some (case dispatch_all e (spec_reader_events (conn cl) (inbox w (conn cl)))
                       (w0\<lparr>inbox := (inbox w)(conn cl := unread (inbox w (conn cl)))\<rparr>) of
                  Inl p \<Rightarrow> Panicked p
                | Inr w' \<Rightarrow> if (\<exists>err. ReadError err \<in> set (inbox w (conn cl)))
                            then Returned () w' else Blocked w')) \<and>
   (bus_of w = started_bus \<longrightarrow>
      (\<exists>w'. Client_Start e cl w =
         Some (if (\<exists>err. ReadError err \<in> set (inbox w (conn cl))) then Returned () w' else Blocked w')))"
proof
  show "Client_Start e cl w =
     (case Dispatch (call_handler e) bus_of ''new-connection'' (DConn (conn cl)) w of
        Inl p \<Rightarrow> Some (Panicked p)
      | Inr w0 \<Rightarrow>
          Some (case dispatch_all e (spec_reader_events (conn cl) (inbox w (conn cl)))
                       (w0\<lparr>inbox := (inbox w)(conn cl := unread (inbox w (conn cl)))\<rparr>) of
                  Inl p \<Rightarrow> Panicked p
                | Inr w' \<Rightarrow> if (\<exists>err. ReadError err \<in> set (inbox w (conn cl)))
                            then Returned () w' else Blocked w'))"
  proof (cases "Dispatch (call_handler e) bus_of ''new-connection'' (DConn (conn cl)) w")
    case (Inl p)
    then show ?thesis by (simp add: Client_Start_def)
  next
    case (Inr w0)
    have i: "inbox w0 = inbox w" using Dispatch_keeps_inbox[OF Inr] .
    show ?thesis
      using Inr by (simp add: Client_Start_def reader_loop_result reader_result_alt[OF i])
  qed
  show "bus_of w = started_bus \<longrightarrow>
      (\<exists>w'. Client_Start e cl w =
         Some (if (\<exists>err. ReadError err \<in> set (inbox w (conn cl))) then Returned () w' else Blocked w'))"
  proof
    assume b: "bus_of w = started_bus"
    from Dispatch_started_returns(1)[OF b, of e "conn cl"] obtain w0 where
      w0: "Dispatch (call_handler e) bus_of ''new-connection'' (DConn (conn cl)) w = Inr w0"
      and b0: "bus_of w0 = started_bus" by blast
    have i: "inbox w0 = inbox w" using Dispatch_keeps_inbox[OF w0] .
    have "bus_of (w0\<lparr>inbox := (inbox w)(conn cl := unread (inbox w (conn cl)))\<rparr>) = started_bus"
      using b0 by (simp add: bus_of_def)
    from dispatch_all_spec_reader_events_returns[OF this, of e "conn cl" "inbox w (conn cl)"] obtain w' where
      "dispatch_all e (spec_reader_events (conn cl) (inbox w (conn cl)))
         (w0\<lparr>inbox := (inbox w)(conn cl := unread (inbox w (conn cl)))\<rparr>) = Inr w'" by blast
    then show "\<exists>w'. Client_Start e cl w =
         Some (if (\<exists>err. ReadError err \<in> set (inbox w (conn cl))) then Returned () w' else Blocked w')"
      using w0 by (simp add: Client_Start_def reader_loop_result reader_result_alt[OF i])
  qed
qed


theorem Client_Start_dispatches_every_read_witness:
  "bus_of chatting_world = started_bus \<and>
   Client_Start sample_env (NewClient (Conn 3)) chatting_world =
     Some (Returned ()
       \<lparr>server = \<lparr>eventBus = started_bus, clients = Map.empty\<rparr>,
        stdout = [''New connection from 10.0.0.7:5000\<newline>'',
                  ''Disconnected from 10.0.0.7:5000\<newline>''],
        outbox = (\<lambda>c. if c = Conn 3 then [''hi''] else []),
        inbox = (\<lambda>c. []),
        backlog = []\<rparr>)"
proof -
  have b: "bus_of chatting_world = started_bus" by (simp add: chatting_world_def bus_of_def)
  have i: "inbox chatting_world (Conn 3) = [Bytes ''hi'', ReadError ''EOF'']"
    by (simp add: chatting_world_def)
  have r: "RemoteAddr sample_env k = ''10.0.0.7:5000''" for k by (simp add: sample_env_def)
  have cl: "conn (NewClient (Conn 3)) = Conn 3" by (simp add: NewClient_def)
  let ?w0 = "Printf ''New connection from 10.0.0.7:5000\<newline>'' (set_client (Conn 3) chatting_world)"
  let ?w1 = "?w0\<lparr>inbox := (inbox chatting_world)(Conn 3 := [])\<rparr>"
  let ?w2 = "?w1\<lparr>outbox := (outbox ?w1)(Conn 3 := outbox ?w1 (Conn 3) @ [''hi''])\<rparr>"
  let ?w3 = "Printf ''Disconnected from 10.0.0.7:5000\<newline>'' (delete_client (Conn 3) ?w2)"
  have d0: "Dispatch (call_handler sample_env) bus_of ''new-connection'' (DConn (Conn 3)) chatting_world = Inr ?w0"
    by (simp add: Dispatch_started[OF b] r)
  have ev: "spec_reader_events (Conn 3) [Bytes ''hi'', ReadError ''EOF'']
      = [(''message-received'', DStr ''hi''), (''disconnected'', DConn (Conn 3))]"
    by simp
  have b1: "bus_of ?w1 = started_bus" using b by (simp add: bus_of_def Printf_def set_client_def)
  have o1: "range_order sample_env (clients (server ?w1)) = [Conn 3]"
    by (auto simp: sample_env_def Printf_def set_client_def chatting_world_def)
  have c1: "clients (server ?w1) (Conn 3) = Some True"
    by (simp add: Printf_def set_client_def)
  have f1: "\<not> write_fails sample_env (Conn 3)" by (simp add: sample_env_def)
  have d1: "Dispatch (call_handler sample_env) bus_of ''message-received'' (DStr ''hi'') ?w1 = Inr ?w2"
    unfolding Dispatch_started(3)[OF b1] call_handler.simps
    by (simp only: Event.simps dyn.case o1) (subst broadcast_step, simp add: c1 f1)
  have b2: "bus_of ?w2 = started_bus" using b1 by (simp add: bus_of_def)
  have d2: "Dispatch (call_handler sample_env) bus_of ''disconnected'' (DConn (Conn 3)) ?w2 = Inr ?w3"
    unfolding Dispatch_started(2)[OF b2] by (simp add: r)
  have all: "dispatch_all sample_env (spec_reader_events (Conn 3) (inbox chatting_world (Conn 3)))
       (?w0\<lparr>inbox := (inbox chatting_world)(Conn 3 := unread (inbox chatting_world (Conn 3)))\<rparr>) = Inr ?w3"
    unfolding i ev by (simp only: unread.simps dispatch_all.simps fst_conv snd_conv d1 d2 sum.case)
  have e: "\<exists>err. ReadError err \<in> set (inbox chatting_world (Conn 3))"
    unfolding i by simp
  have w3: "?w3 = \<lparr>server = \<lparr>eventBus = started_bus, clients = Map.empty\<rparr>,
        stdout = [''New connection from 10.0.0.7:5000\<newline>'',
                  ''Disconnected from 10.0.0.7:5000\<newline>''],
        outbox = (\<lambda>c. if c = Conn 3 then [''hi''] else []),
        inbox = (\<lambda>c. []),
        backlog = []\<rparr>"
    by (auto simp: Printf_def set_client_def delete_client_def chatting_world_def fun_eq_iff)
  have "Client_Start sample_env (NewClient (Conn 3)) chatting_world = Some (Returned () ?w3)"
    using Client_Start_dispatches_every_read[of sample_env "NewClient (Conn 3)" chatting_world,
        THEN conjunct1] e
    unfolding cl by (simp only: d0 all sum.case if_True)
  then show ?thesis using b w3 by simp
qed

end
